theory Spec2Isabelle
  imports Main
begin

chapter \<open>The model\<close>

section \<open>Values and effects\<close>

text \<open>
  The translated horoscope is whatever \<^verbatim>\<open>json.loads\<close> returns. Numbers are the
  integers here (a float is not in the model); \<open>truthy\<close> is Python's truth value, which
  the code's \<^verbatim>\<open>if not translated_data\<close> and \<^verbatim>\<open>cached.get("data")\<close> test.
\<close>

datatype json =
    JNull
  | JBool bool
  | JInt int
  | JStr string
  | JArr "json list"
  | JObj "(string \<times> json) list"

fun truthy :: "json \<Rightarrow> bool" where
  "truthy JNull = False"
| "truthy (JBool b) = b"
| "truthy (JInt n) = (n \<noteq> 0)"
| "truthy (JStr s) = (s \<noteq> [])"
| "truthy (JArr xs) = (xs \<noteq> [])"
| "truthy (JObj kvs) = (kvs \<noteq> [])"

text \<open>The announcement the scheduler builds from \<^verbatim>\<open>mention_mode\<close> and \<^verbatim>\<open>mention_role_id\<close>.\<close>

datatype mention = NoMention | Everyone | RoleMention int

text \<open>
  What the functions do besides returning: each function of the model returns the list of
  its effects, in the order the code performs them. \<open>HttpPost i\<close> is the post of attempt
  \<open>i\<close> to the translation endpoint, \<open>SleepSec n\<close> an \<^verbatim>\<open>asyncio.sleep(n)\<close>, \<open>FetchSource\<close>
  a call of \<^verbatim>\<open>fetch_horoscope_data_sync\<close>, \<open>CacheStore g\<close> the assignment to
  \<^verbatim>\<open>horoscope_cache[g]\<close>, \<open>Spawn g ch key m\<close> the scheduler's
  \<^verbatim>\<open>create_task(fetch_and_post_horoscope(channel, gemini_key, mention_text, guild_id))\<close>,
  \<open>ManualPost\<close> the same coroutine awaited by \<^verbatim>\<open>/ohaasa test\<close>, \<open>Mark g day\<close> the
  assignment \<^verbatim>\<open>cfg["last_post_date"] = today_str\<close>, \<open>SaveFile\<close> a dump of the settings
  to the file and \<open>LogSaveError\<close> the error \<open>save_guild_config\<close> logs. Other log lines
  are left out.
\<close>

datatype effect =
    HttpPost nat
  | SleepSec nat
  | FetchSource
  | CacheStore int
  | Spawn int int string mention
  | ManualPost int int string mention
  | Mark int string
  | SaveFile
  | LogSaveError

section \<open>translate_text\<close>

text \<open>
  One answer of the translation endpoint, as the code reads it: \<open>PostRaises\<close> when
  \<^verbatim>\<open>session.post\<close> raises; otherwise the status, what decoding the body gives
  (\<^verbatim>\<open>resp.json()\<close>, the indexing and \<^verbatim>\<open>json.loads\<close>; \<open>None\<close> when one of them
  raises; read only for status 200) and whether \<^verbatim>\<open>resp.text()\<close> returns (read only
  for the other statuses).
\<close>

datatype reply = PostRaises | Reply int "json option" bool

text \<open>
  The end of a failed attempt, in the \<^verbatim>\<open>5xx\<close> branch and in the \<^verbatim>\<open>except\<close> branch alike:
  sleep \<^verbatim>\<open>1 + attempt\<close> and continue with the rest of the loop while
  \<^verbatim>\<open>attempt < max_retries - 1\<close>, return \<^verbatim>\<open>None\<close> otherwise.
\<close>

definition backoff ::
  "nat \<Rightarrow> nat \<Rightarrow> json option \<times> effect list \<Rightarrow> json option \<times> effect list" where
  "backoff attempt max_retries rest =
     (if int attempt < int max_retries - 1
      then (fst rest, SleepSec (1 + attempt) # snd rest)
      else (None, []))"

text \<open>
  What the caller receives when the function returns the decoded body: Python's \<^verbatim>\<open>None\<close>
  is the decoded \<^verbatim>\<open>null\<close>, so a body \<^verbatim>\<open>null\<close> reads as the failure value.
\<close>

definition py_optional :: "json \<Rightarrow> json option" where
  "py_optional v = (if v = JNull then None else Some v)"

text \<open>
  \<^verbatim>\<open>for attempt in range(max_retries)\<close>: the loop over the attempt numbers still to run;
  \<open>env attempt\<close> is the endpoint's answer to that attempt.
\<close>

fun translate_loop ::
  "(nat \<Rightarrow> reply) \<Rightarrow> nat \<Rightarrow> nat list \<Rightarrow> json option \<times> effect list" where
  "translate_loop env max_retries [] = (None, [])"
| "translate_loop env max_retries (attempt # rest) =
     (let (r, es) =
        (case env attempt of
           PostRaises \<Rightarrow> backoff attempt max_retries (translate_loop env max_retries rest)
         | Reply status decoded text_ok \<Rightarrow>
             if status = 200 then
               (case decoded of
                  Some v \<Rightarrow> (py_optional v, [])
                | None \<Rightarrow> backoff attempt max_retries (translate_loop env max_retries rest))
             else if 500 \<le> status \<and> status < 600 then
               backoff attempt max_retries (translate_loop env max_retries rest)
             else if text_ok then (None, [])
             else backoff attempt max_retries (translate_loop env max_retries rest))
      in (r, HttpPost attempt # es))"

definition translate_text ::
  "(nat \<Rightarrow> reply) \<Rightarrow> string \<Rightarrow> string \<Rightarrow> nat \<Rightarrow> json option \<times> effect list" where
  "translate_text env japanese_json_text gemini_api_key max_retries =
     (if gemini_api_key = [] then (None, [])
      else translate_loop env max_retries [0..<max_retries])"

text \<open>The attempts made and the waits between them, read off the effects.\<close>

definition posts :: "effect list \<Rightarrow> nat list" where
  "posts es = concat (map (\<lambda>e. case e of HttpPost i \<Rightarrow> [i] | _ \<Rightarrow> []) es)"

definition sleeps :: "effect list \<Rightarrow> nat list" where
  "sleeps es = concat (map (\<lambda>e. case e of SleepSec n \<Rightarrow> [n] | _ \<Rightarrow> []) es)"

text \<open>
  The answers after which the loop goes on to its backoff, read off its branches: a status
  of the 5xx class, and every exception raised inside the \<^verbatim>\<open>try\<close>, which
  \<^verbatim>\<open>except Exception\<close> catches: the post raising, a 200 whose body fails to decode, or
  another status whose body cannot be read.
\<close>

fun server_fault_or_exception :: "reply \<Rightarrow> bool" where
  "server_fault_or_exception PostRaises = True"
| "server_fault_or_exception (Reply status decoded text_ok) =
     ((500 \<le> status \<and> status < 600) \<or> (status = 200 \<and> decoded = None)
      \<or> (status \<noteq> 200 \<and> \<not> text_ok))"

text \<open>
  The specification's words for what is retried: a server-side (5xx) status, or a
  transport-level exception, the request itself failing.
\<close>

fun claimed_retry :: "reply \<Rightarrow> bool" where
  "claimed_retry PostRaises = True"
| "claimed_retry (Reply status decoded text_ok) = (500 \<le> status \<and> status < 600)"

text \<open>What an attempt that is not retried returns.\<close>

fun final_answer :: "reply \<Rightarrow> json option" where
  "final_answer PostRaises = None"
| "final_answer (Reply status decoded text_ok) =
     (if status = 200 then (case decoded of None \<Rightarrow> None | Some v \<Rightarrow> py_optional v) else None)"

section \<open>get_today_horoscope_for_guild\<close>

text \<open>
  \<^verbatim>\<open>horoscope_cache\<close>: guild id to the entry \<^verbatim>\<open>{"date": ..., "data": ...}\<close>. The entries
  are written by \<open>get_today_horoscope_for_guild\<close> only, always with both keys.
\<close>

record cache_entry =
  date :: string
  data :: json

type_synonym cache = "int \<rightharpoonup> cache_entry"

text \<open>
  The check under \<^verbatim>\<open>cache_lock\<close>:
  \<^verbatim>\<open>cached and cached.get("date") == today and cached.get("data")\<close>.
\<close>

definition cached_today :: "string \<Rightarrow> cache \<Rightarrow> int \<Rightarrow> json option" where
  "cached_today today c guild_id =
     (case c guild_id of
        None \<Rightarrow> None
      | Some cached \<Rightarrow>
          if date cached = today \<and> truthy (data cached) then Some (data cached) else None)"

text \<open>\<^verbatim>\<open>not japanese_json_data or japanese_json_data == "[]"\<close>\<close>

definition no_source :: "string option \<Rightarrow> bool" where
  "no_source japanese_json_data =
     (case japanese_json_data of None \<Rightarrow> True | Some j \<Rightarrow> j = [] \<or> j = ''[]'')"

text \<open>
  The lookup. \<open>today\<close> is what \<^verbatim>\<open>time.strftime("%Y%m%d", time.localtime())\<close> gives when the
  call starts, \<open>fetched\<close> what \<^verbatim>\<open>fetch_horoscope_data_sync\<close> returns and \<open>env\<close> the
  translation endpoint's answers; the call returns its result, the cache it leaves and
  its effects.
\<close>

definition get_today_horoscope_for_guild ::
  "string \<Rightarrow> string option \<Rightarrow> (nat \<Rightarrow> reply) \<Rightarrow> int \<Rightarrow> string \<Rightarrow> cache
     \<Rightarrow> json option \<times> cache \<times> effect list" where
  "get_today_horoscope_for_guild today fetched env guild_id gemini_api_key c =
     (case cached_today today c guild_id of
        Some cached_data \<Rightarrow> (Some cached_data, c, [])
      | None \<Rightarrow>
          if no_source fetched then (None, c, [FetchSource])
          else
            (case translate_text env (the fetched) gemini_api_key 3 of
               (translated_data, es) \<Rightarrow>
                 (case translated_data of
                    None \<Rightarrow> (None, c, FetchSource # es)
                  | Some t \<Rightarrow>
                      if \<not> truthy t then (None, c, FetchSource # es)
                      else (Some t, c(guild_id \<mapsto> \<lparr>date = today, data = t\<rparr>),
                            FetchSource # es @ [CacheStore guild_id]))))"

section \<open>Lookups that overlap\<close>

text \<open>
  \<open>get_today_horoscope_for_guild\<close> is a coroutine: another task runs only while it is
  suspended at an \<^verbatim>\<open>await\<close>. It holds \<^verbatim>\<open>cache_lock\<close> around the check and around the
  store only, and nothing awaits inside the lock, so the lock is free whenever a task
  reaches it. Between its suspensions a call with a key runs in three segments: the check
  and the start of the fetch thread (\<open>AtCheck\<close>); from the fetch's result to the start of
  \<open>translate_text\<close> (\<open>AtFetch\<close>); from the translation's result through the store to
  the return (\<open>AtTranslate\<close>). A call carries what it was called with, the day it
  computed when it started and what its collaborators answer. The posts and waits of
  \<open>translate_text\<close>, which touch nothing shared, are listed with the segment that
  receives their result.
\<close>

datatype pc = AtCheck | AtFetch | AtTranslate | Returned "json option"

record call =
  call_guild :: int
  call_key :: string
  call_today :: string
  call_fetched :: "string option"
  call_env :: "nat \<Rightarrow> reply"
  call_pc :: pc

definition advance :: "call \<Rightarrow> cache \<Rightarrow> call \<times> cache \<times> effect list" where
  "advance k c =
     (case call_pc k of
        AtCheck \<Rightarrow>
          (case cached_today (call_today k) c (call_guild k) of
             Some cached_data \<Rightarrow> (k\<lparr>call_pc := Returned (Some cached_data)\<rparr>, c, [])
           | None \<Rightarrow> (k\<lparr>call_pc := AtFetch\<rparr>, c, [FetchSource]))
      | AtFetch \<Rightarrow>
          if no_source (call_fetched k) then (k\<lparr>call_pc := Returned None\<rparr>, c, [])
          else (k\<lparr>call_pc := AtTranslate\<rparr>, c, [])
      | AtTranslate \<Rightarrow>
          (case translate_text (call_env k) (the (call_fetched k)) (call_key k) 3 of
             (translated_data, es) \<Rightarrow>
               (case translated_data of
                  None \<Rightarrow> (k\<lparr>call_pc := Returned None\<rparr>, c, es)
                | Some t \<Rightarrow>
                    if \<not> truthy t then (k\<lparr>call_pc := Returned None\<rparr>, c, es)
                    else (k\<lparr>call_pc := Returned (Some t)\<rparr>,
                          c(call_guild k \<mapsto> \<lparr>date = call_today k, data = t\<rparr>),
                          es @ [CacheStore (call_guild k)])))
      | Returned r \<Rightarrow> (k, c, []))"

text \<open>
  A schedule names, step by step, the call that runs its next segment. The effects are
  listed with the number of the call that made them.
\<close>

fun interleave ::
  "nat list \<Rightarrow> call list \<Rightarrow> cache \<Rightarrow> call list \<times> cache \<times> (nat \<times> effect) list" where
  "interleave [] cs c = (cs, c, [])"
| "interleave (i # sched) cs c =
     (if i < length cs then
        (case advance (cs ! i) c of
           (k', c', es) \<Rightarrow>
             (case interleave sched (cs[i := k']) c' of
                (cs'', c'', tes) \<Rightarrow> (cs'', c'', map (Pair i) es @ tes)))
      else interleave sched cs c)"

definition effects_of :: "nat \<Rightarrow> (nat \<times> effect) list \<Rightarrow> effect list" where
  "effects_of i tes = map snd (filter (\<lambda>te. fst te = i) tes)"

text \<open>
  What a call may still do, by where it stands: source fetches to start, and posts of
  its one translation.
\<close>

definition fetches_left :: "pc \<Rightarrow> nat" where
  "fetches_left p = (if p = AtCheck then 1 else 0)"

definition posts_left :: "pc \<Rightarrow> nat" where
  "posts_left p = (case p of Returned r \<Rightarrow> 0 | _ \<Rightarrow> 3)"

section \<open>Guild settings and their file\<close>

text \<open>
  One guild's settings, the dict that \<open>get_or_create_guild_settings\<close> creates. A key that
  is missing or null reads as \<open>None\<close> through \<^verbatim>\<open>cfg.get\<close>; the values are the ones the
  commands write (integers and strings).
\<close>

record cfg =
  channel_id :: "int option"
  post_hour :: "int option"
  post_minute :: "int option"
  gemini_api_key :: "string option"
  last_post_date :: "string option"
  mention_mode :: string
  mention_role_id :: "int option"

text \<open>\<^verbatim>\<open>guild_settings\<close>: a dict, so the entries in insertion order, one per guild id.\<close>

type_synonym settings = "(int \<times> cfg) list"

definition default_cfg :: cfg where
  "default_cfg =
     \<lparr>channel_id = None, post_hour = Some 8, post_minute = Some 0,
      gemini_api_key = Some [], last_post_date = None,
      mention_mode = ''none'', mention_role_id = None\<rparr>"

definition get_or_create_guild_settings :: "int \<Rightarrow> settings \<Rightarrow> settings" where
  "get_or_create_guild_settings guild_id gs =
     (if map_of gs guild_id = None then gs @ [(guild_id, default_cfg)] else gs)"

text \<open>\<^verbatim>\<open>cfg[...] = ...\<close> on the dict that \<open>get_or_create_guild_settings\<close> returned.\<close>

definition update_cfg :: "int \<Rightarrow> (cfg \<Rightarrow> cfg) \<Rightarrow> settings \<Rightarrow> settings" where
  "update_cfg guild_id f gs = map (\<lambda>(k, c). if k = guild_id then (k, f c) else (k, c)) gs"

text \<open>
  \<^verbatim>\<open>guild_config.json\<close>: absent, holding a dump of the settings, or left unreadable by a
  dump that failed after \<^verbatim>\<open>open(..., "w")\<close> had truncated it.
\<close>

datatype disk = NoFile | Garbled | File settings

text \<open>How one call of \<open>save_guild_config\<close> goes: the dump succeeds, \<^verbatim>\<open>open\<close> raises, or
  \<^verbatim>\<open>json.dump\<close> raises.\<close>

datatype save_outcome = Saved | OpenFails | DumpFails

text \<open>
  \<open>save_guild_config\<close> catches every exception and logs it: it returns normally in all
  three cases, with the file it leaves and its effects.
\<close>

definition save_guild_config :: "save_outcome \<Rightarrow> settings \<Rightarrow> disk \<Rightarrow> disk \<times> effect list" where
  "save_guild_config outcome gs d =
     (case outcome of
        Saved \<Rightarrow> (File gs, [SaveFile])
      | OpenFails \<Rightarrow> (d, [LogSaveError])
      | DumpFails \<Rightarrow> (Garbled, [LogSaveError]))"

section \<open>The slash commands that write the settings\<close>

text \<open>
  \<^verbatim>\<open>str.strip()\<close>: it removes the characters for which \<^verbatim>\<open>str.isspace\<close> holds from both
  ends. A character here is a code point below 256; among these the whitespace is
  U+0009 to U+000D, U+001C to U+0020, U+0085 and U+00A0.
\<close>

definition is_space :: "char \<Rightarrow> bool" where
  "is_space ch = (ch \<in> set [CHR 0x09, CHR 0x0A, CHR 0x0B, CHR 0x0C, CHR 0x0D,
                            CHR 0x1C, CHR 0x1D, CHR 0x1E, CHR 0x1F, CHR 0x20,
                            CHR 0x85, CHR 0xA0])"

definition strip :: "string \<Rightarrow> string" where
  "strip s = rev (dropWhile is_space (rev (dropWhile is_space s)))"

text \<open>
  The commands of the \<^verbatim>\<open>/ohaasa\<close> group, used in a guild by a member who passes the
  permission check: \<^verbatim>\<open>channel\<close> with the target channel's id, \<^verbatim>\<open>apikey\<close>, \<^verbatim>\<open>time\<close>,
  \<^verbatim>\<open>mention\<close> with the mode's value and the role's id, \<^verbatim>\<open>config\<close> and \<^verbatim>\<open>test\<close>.
\<close>

datatype command =
    Channel int
  | Apikey string
  | Time int int
  | Mention string "int option"
  | Config
  | Test

datatype response =
    Done
  | RoleRequired
  | ConfigShown
  | ChannelNotSet
  | ApikeyNotSet
  | ChannelNotFound

text \<open>
  The announcement, as \<open>scheduler_loop\<close> and \<^verbatim>\<open>test\<close> build it:
  \<^verbatim>\<open>if mode == "everyone": ... elif mode == "role" and role_id: ...\<close>
\<close>

definition mention_text :: "cfg \<Rightarrow> mention" where
  "mention_text c =
     (if mention_mode c = ''everyone'' then Everyone
      else case mention_role_id c of
             Some role_id \<Rightarrow>
               if mention_mode c = ''role'' \<and> role_id \<noteq> 0 then RoleMention role_id
               else NoMention
           | None \<Rightarrow> NoMention)"

text \<open>
  One command, in guild \<open>guild_id\<close>: the settings, the file and the effects it leaves, and
  the message it answers with. \<open>outcome\<close> is how its call of \<open>save_guild_config\<close> goes and
  \<open>get_channel\<close> says which channel ids \<^verbatim>\<open>client.get_channel\<close> resolves. Every command
  starts with \<open>get_or_create_guild_settings\<close>; \<^verbatim>\<open>test\<close> then reads the entry it returned
  (the lookup cannot miss after it) and tests \<^verbatim>\<open>not ch_id\<close> and \<^verbatim>\<open>not gemini_key\<close>.
\<close>

fun handle ::
  "command \<Rightarrow> save_outcome \<Rightarrow> (int \<Rightarrow> bool) \<Rightarrow> int \<Rightarrow> settings \<Rightarrow> disk
     \<Rightarrow> settings \<times> disk \<times> effect list \<times> response" where
  "handle (Channel target) outcome get_channel guild_id gs d =
     (let gs' = update_cfg guild_id (\<lambda>c. c\<lparr>channel_id := Some target\<rparr>)
                  (get_or_create_guild_settings guild_id gs);
          (d', es) = save_guild_config outcome gs' d
      in (gs', d', es, Done))"
| "handle (Apikey api_key) outcome get_channel guild_id gs d =
     (let gs' = update_cfg guild_id (\<lambda>c. c\<lparr>gemini_api_key := Some (strip api_key)\<rparr>)
                  (get_or_create_guild_settings guild_id gs);
          (d', es) = save_guild_config outcome gs' d
      in (gs', d', es, Done))"
| "handle (Time h m) outcome get_channel guild_id gs d =
     (let gs' = update_cfg guild_id (\<lambda>c. c\<lparr>post_hour := Some h, post_minute := Some m\<rparr>)
                  (get_or_create_guild_settings guild_id gs);
          (d', es) = save_guild_config outcome gs' d
      in (gs', d', es, Done))"
| "handle (Mention mode role) outcome get_channel guild_id gs d =
     (let gs0 = get_or_create_guild_settings guild_id gs in
      if mode = ''role'' \<and> role = None then (gs0, d, [], RoleRequired)
      else
        (let gs' =
           (if mode = ''role''
            then update_cfg guild_id (\<lambda>c. c\<lparr>mention_mode := ''role'', mention_role_id := role\<rparr>) gs0
            else if mode = ''everyone''
            then update_cfg guild_id
                   (\<lambda>c. c\<lparr>mention_mode := ''everyone'', mention_role_id := None\<rparr>) gs0
            else update_cfg guild_id
                   (\<lambda>c. c\<lparr>mention_mode := ''none'', mention_role_id := None\<rparr>) gs0);
             (d', es) = save_guild_config outcome gs' d
         in (gs', d', es, Done)))"
| "handle Config outcome get_channel guild_id gs d =
     (get_or_create_guild_settings guild_id gs, d, [], ConfigShown)"
| "handle Test outcome get_channel guild_id gs d =
     (let gs0 = get_or_create_guild_settings guild_id gs in
      case map_of gs0 guild_id of
        None \<Rightarrow> (gs0, d, [], ChannelNotSet)
      | Some c \<Rightarrow>
          (case channel_id c of
             None \<Rightarrow> (gs0, d, [], ChannelNotSet)
           | Some ch \<Rightarrow>
               if ch = 0 then (gs0, d, [], ChannelNotSet)
               else
                 (case gemini_api_key c of
                    None \<Rightarrow> (gs0, d, [], ApikeyNotSet)
                  | Some key \<Rightarrow>
                      if key = [] then (gs0, d, [], ApikeyNotSet)
                      else if \<not> get_channel ch then (gs0, d, [], ChannelNotFound)
                      else (gs0, d, [ManualPost guild_id ch key (mention_text c)], Done))))"

text \<open>
  The commands that reach an assignment to a field of the guild's settings: \<^verbatim>\<open>channel\<close>,
  \<^verbatim>\<open>apikey\<close>, \<^verbatim>\<open>time\<close>, and \<^verbatim>\<open>mention\<close> unless it is refused for a missing role.
\<close>

fun writes_field :: "command \<Rightarrow> bool" where
  "writes_field (Channel target) = True"
| "writes_field (Apikey api_key) = True"
| "writes_field (Time h m) = True"
| "writes_field (Mention mode role) = (\<not> (mode = ''role'' \<and> role = None))"
| "writes_field Config = False"
| "writes_field Test = False"

section \<open>scheduler_loop\<close>

text \<open>
  What one iteration of the loop reads from outside: \<^verbatim>\<open>dt.datetime.now()\<close>, taken once
  (its \<^verbatim>\<open>strftime("%Y%m%d")\<close>, hour and minute), which channel ids
  \<^verbatim>\<open>client.get_channel\<close> resolves, and how the save made for a guild goes.
\<close>

record tick_in =
  today_str :: string
  now_hour :: int
  now_minute :: int
  get_channel :: "int \<Rightarrow> bool"
  save_goes :: "int \<Rightarrow> save_outcome"

text \<open>\<^verbatim>\<open>int(hour)\<close>, \<^verbatim>\<open>int(minute)\<close>: \<^verbatim>\<open>int(None)\<close> raises \<^verbatim>\<open>TypeError\<close>.\<close>

datatype py_exn = TypeError

definition py_int :: "int option \<Rightarrow> py_exn + int" where
  "py_int v = (case v of None \<Rightarrow> Inl TypeError | Some n \<Rightarrow> Inr n)"

text \<open>
  The body of the \<^verbatim>\<open>for\<close> loop up to the decision, for one guild: \<^verbatim>\<open>continue\<close>
  (\<open>Skip\<close>), an exception, or the dispatch of channel, key and announcement. The
  conjunction \<^verbatim>\<open>now.hour == int(hour) and now.minute == int(minute)\<close> evaluates
  \<^verbatim>\<open>int(minute)\<close> only when the hours are equal.
\<close>

datatype verdict = Skip | Raise py_exn | Fire int string mention

definition evaluate :: "tick_in \<Rightarrow> cfg \<Rightarrow> verdict" where
  "evaluate t c =
     (case channel_id c of
        None \<Rightarrow> Skip
      | Some ch \<Rightarrow>
          (case gemini_api_key c of
             None \<Rightarrow> Skip
           | Some gemini_key \<Rightarrow>
               if last_post_date c = Some (today_str t) then Skip
               else
                 (case py_int (post_hour c) of
                    Inl e \<Rightarrow> Raise e
                  | Inr h \<Rightarrow>
                      if now_hour t \<noteq> h then Skip
                      else
                        (case py_int (post_minute c) of
                           Inl e \<Rightarrow> Raise e
                         | Inr m \<Rightarrow>
                             if now_minute t \<noteq> m then Skip
                             else if \<not> get_channel t ch then Skip
                             else Fire ch gemini_key (mention_text c)))))"

text \<open>
  \<^verbatim>\<open>for guild_id, cfg in guild_settings.items()\<close>: \<open>seen\<close> are the entries already
  visited, as the loop left them, \<open>todo\<close> the ones still to visit. On a dispatch the code
  creates the task, then sets \<^verbatim>\<open>cfg["last_post_date"]\<close> in place, then saves the whole
  dict. An exception leaves the loop: the result carries it, with the settings, the file
  and the effects up to there.
\<close>

fun tick_items ::
  "tick_in \<Rightarrow> settings \<Rightarrow> settings \<Rightarrow> disk
     \<Rightarrow> py_exn option \<times> settings \<times> disk \<times> effect list" where
  "tick_items t seen [] d = (None, seen, d, [])"
| "tick_items t seen ((guild_id, c) # todo) d =
     (case evaluate t c of
        Skip \<Rightarrow> tick_items t (seen @ [(guild_id, c)]) todo d
      | Raise e \<Rightarrow> (Some e, seen @ (guild_id, c) # todo, d, [])
      | Fire ch gemini_key mention \<Rightarrow>
          (let c' = c\<lparr>last_post_date := Some (today_str t)\<rparr>;
               (d', es) = save_guild_config (save_goes t guild_id) (seen @ (guild_id, c') # todo) d;
               (x, gs', d'', es') = tick_items t (seen @ [(guild_id, c')]) todo d'
           in (x, gs', d'',
               Spawn guild_id ch gemini_key mention # Mark guild_id (today_str t) # es @ es')))"

definition tick :: "tick_in \<Rightarrow> settings \<Rightarrow> disk \<Rightarrow> py_exn option \<times> settings \<times> disk \<times> effect list" where
  "tick t gs d = tick_items t [] gs d"

text \<open>
  The process: the settings, their file, and whether \<open>scheduler_loop\<close> has ended with an
  exception.
\<close>

record state =
  guild_settings :: settings
  disk :: disk
  stopped :: "py_exn option"

text \<open>
  What happens, one after the other: an iteration of the one \<open>scheduler_loop\<close> task (its
  tick, then \<^verbatim>\<open>asyncio.sleep(30)\<close>), or a command handled while the loop sleeps; the
  body of the tick awaits nothing, so no command runs inside it. An iteration that raises
  ends the loop, and no later iteration runs. The dispatch tasks the scheduler creates
  read and write the cache, never the settings, so they are no events here.
\<close>

datatype event = Tick tick_in | Command int command save_outcome "int \<Rightarrow> bool"

fun step :: "event \<Rightarrow> state \<Rightarrow> state \<times> effect list" where
  "step (Tick t) s =
     (case stopped s of
        Some e \<Rightarrow> (s, [])
      | None \<Rightarrow>
          (case tick t (guild_settings s) (disk s) of
             (None, gs', d', es) \<Rightarrow>
               (s\<lparr>guild_settings := gs', disk := d'\<rparr>, es @ [SleepSec 30])
           | (Some e, gs', d', es) \<Rightarrow>
               (s\<lparr>guild_settings := gs', disk := d', stopped := Some e\<rparr>, es)))"
| "step (Command guild_id cmd outcome chans) s =
     (case handle cmd outcome chans guild_id (guild_settings s) (disk s) of
        (gs', d', es, r) \<Rightarrow> (s\<lparr>guild_settings := gs', disk := d'\<rparr>, es))"

fun run :: "event list \<Rightarrow> state \<Rightarrow> state \<times> effect list" where
  "run [] s = (s, [])"
| "run (ev # evs) s =
     (case step ev s of (s', es) \<Rightarrow> (case run evs s' of (s'', es') \<Rightarrow> (s'', es @ es')))"

text \<open>
  \<open>load_guild_config\<close>, run once when the process starts: the settings are those of the
  file, or none when there is no file or it cannot be read. A start of the process reads
  the file and starts a new \<open>scheduler_loop\<close>.
\<close>

definition load_guild_config :: "disk \<Rightarrow> settings" where
  "load_guild_config d = (case d of NoFile \<Rightarrow> [] | Garbled \<Rightarrow> [] | File gs \<Rightarrow> gs)"

definition restart :: "state \<Rightarrow> state" where
  "restart s = \<lparr>guild_settings = load_guild_config (disk s), disk = disk s, stopped = None\<rparr>"

text \<open>The guilds for which an effect list creates a dispatch task, in order.\<close>

definition spawned :: "effect list \<Rightarrow> int list" where
  "spawned es = concat (map (\<lambda>e. case e of Spawn g ch k m \<Rightarrow> [g] | _ \<Rightarrow> []) es)"

text \<open>
  Two views of a tick used in the proofs: the guilds it dispatches, and the entries it
  leaves. Both follow \<open>tick_items\<close>, without the file.
\<close>

fun tick_spawns :: "tick_in \<Rightarrow> settings \<Rightarrow> int list" where
  "tick_spawns t [] = []"
| "tick_spawns t ((guild_id, c) # todo) =
     (case evaluate t c of
        Skip \<Rightarrow> tick_spawns t todo
      | Raise e \<Rightarrow> []
      | Fire ch gemini_key mention \<Rightarrow> guild_id # tick_spawns t todo)"

fun after_tick :: "tick_in \<Rightarrow> settings \<Rightarrow> settings" where
  "after_tick t [] = []"
| "after_tick t ((guild_id, c) # todo) =
     (case evaluate t c of
        Skip \<Rightarrow> (guild_id, c) # after_tick t todo
      | Raise e \<Rightarrow> (guild_id, c) # todo
      | Fire ch gemini_key mention \<Rightarrow>
          (guild_id, c\<lparr>last_post_date := Some (today_str t)\<rparr>) # after_tick t todo)"

text \<open>
  The marker writes of an effect list, in order: guild and day of each
  \<^verbatim>\<open>cfg["last_post_date"] = today_str\<close>. The scheduler makes one right after each task it
  creates, so they name the day of each scheduled dispatch.
\<close>

definition marks :: "effect list \<Rightarrow> (int \<times> string) list" where
  "marks es = concat (map (\<lambda>e. case e of Mark g day \<Rightarrow> [(g, day)] | _ \<Rightarrow> []) es)"

text \<open>The marker a guild holds: \<^verbatim>\<open>guild_settings[guild_id]["last_post_date"]\<close>, if any.\<close>

definition last_post_date_of :: "settings \<Rightarrow> int \<Rightarrow> string option" where
  "last_post_date_of gs guild_id =
     (case map_of gs guild_id of None \<Rightarrow> None | Some c \<Rightarrow> last_post_date c)"

text \<open>
  The days of a run's ticks, in order, and what a clock that does not go back to a day
  it has left means for them: the ticks of day \<open>day\<close> come in one block.
\<close>

fun tick_days :: "event list \<Rightarrow> string list" where
  "tick_days [] = []"
| "tick_days (Tick t # evs) = today_str t # tick_days evs"
| "tick_days (Command g cmd outcome chans # evs) = tick_days evs"

fun day_left :: "string \<Rightarrow> string list \<Rightarrow> bool" where
  "day_left day [] = True"
| "day_left day (x # xs) = (if x = day then day_left day xs else day \<notin> set xs)"

fun one_block :: "string \<Rightarrow> string list \<Rightarrow> bool" where
  "one_block day [] = True"
| "one_block day (x # xs) = (if x = day then day_left day xs else one_block day xs)"

text \<open>\<open>comes_before a b es\<close>: some occurrence of \<open>a\<close> in \<open>es\<close> has a \<open>b\<close> after it.\<close>

fun comes_before :: "effect \<Rightarrow> effect \<Rightarrow> effect list \<Rightarrow> bool" where
  "comes_before a b [] = False"
| "comes_before a b (e # es) = ((e = a \<and> b \<in> set es) \<or> comes_before a b es)"

text \<open>The effect of one call of \<open>save_guild_config\<close>.\<close>

definition save_effect :: "save_outcome \<Rightarrow> effect" where
  "save_effect outcome = (case outcome of Saved \<Rightarrow> SaveFile | _ \<Rightarrow> LogSaveError)"

chapter \<open>Properties\<close>

section \<open>The retry policy of translate_text\<close>

lemma translate_loop_retry:
  "server_fault_or_exception (env a) \<Longrightarrow>
   translate_loop env m (a # rest) =
     (fst (backoff a m (translate_loop env m rest)),
      HttpPost a # snd (backoff a m (translate_loop env m rest)))"
  by (cases "env a") (auto simp: split_beta split: option.splits)

lemma translate_loop_final:
  "\<not> server_fault_or_exception (env a) \<Longrightarrow>
   translate_loop env m (a # rest) = (final_answer (env a), [HttpPost a])"
  by (cases "env a") (auto simp: split_beta split: option.splits)

lemma upt_0_3: "[0..<3] = [0, Suc 0, 2]"
  by (simp add: upt_rec)

lemma backoff_3:
  "backoff 0 3 rest = (fst rest, SleepSec 1 # snd rest)"
  "backoff (Suc 0) 3 rest = (fst rest, SleepSec 2 # snd rest)"
  "backoff 2 3 rest = (None, [])"
  by (simp_all add: backoff_def)

lemma translate_loop_3:
  "translate_loop env 3 [0, Suc 0, 2] =
     (if \<not> server_fault_or_exception (env 0) then (final_answer (env 0), [HttpPost 0])
      else if \<not> server_fault_or_exception (env (Suc 0))
        then (final_answer (env (Suc 0)), [HttpPost 0, SleepSec 1, HttpPost (Suc 0)])
      else if \<not> server_fault_or_exception (env 2)
        then (final_answer (env 2),
              [HttpPost 0, SleepSec 1, HttpPost (Suc 0), SleepSec 2, HttpPost 2])
      else (None, [HttpPost 0, SleepSec 1, HttpPost (Suc 0), SleepSec 2, HttpPost 2]))"
  by (simp add: translate_loop_retry translate_loop_final backoff_3 del: translate_loop.simps)

text \<open>The three attempts of the default \<^verbatim>\<open>max_retries = 3\<close>, unrolled.\<close>

lemma translate_text_3:
  "translate_text env j k 3 =
     (if k = [] then (None, [])
      else if \<not> server_fault_or_exception (env 0) then (final_answer (env 0), [HttpPost 0])
      else if \<not> server_fault_or_exception (env (Suc 0))
        then (final_answer (env (Suc 0)), [HttpPost 0, SleepSec 1, HttpPost (Suc 0)])
      else if \<not> server_fault_or_exception (env 2)
        then (final_answer (env 2),
              [HttpPost 0, SleepSec 1, HttpPost (Suc 0), SleepSec 2, HttpPost 2])
      else (None, [HttpPost 0, SleepSec 1, HttpPost (Suc 0), SleepSec 2, HttpPost 2]))"
  unfolding translate_text_def upt_0_3 translate_loop_3 by simp

text \<open>
  The specification has the call retry only on a 5xx status or a transport-level
  exception, and return at once on any other error status. The code also tries again after
  a 200 whose body does not decode, and after a 400 whose body cannot be read.
\<close>

theorem other_exceptions_are_retried:
  "\<not> claimed_retry (Reply 200 None True)
   \<and> translate_text
        (\<lambda>i. if i = 0 then Reply 200 None True else Reply 200 (Some (JArr [JStr ''x''])) True)
        ''[1]'' ''key'' 3
      = (Some (JArr [JStr ''x'']), [HttpPost 0, SleepSec 1, HttpPost 1])
   \<and> \<not> claimed_retry (Reply 400 None False)
   \<and> translate_text
        (\<lambda>i. if i = 0 then Reply 400 None False else Reply 200 (Some (JArr [JStr ''x''])) True)
        ''[1]'' ''key'' 3
      = (Some (JArr [JStr ''x'']), [HttpPost 0, SleepSec 1, HttpPost 1])"
  by (simp add: translate_text_3 py_optional_def)

lemma translate_text_goes_on:
  assumes "k \<noteq> []" and "i < 2" and "HttpPost i \<in> set (snd (translate_text env j k 3))"
    and "server_fault_or_exception (env i)"
  shows "SleepSec (Suc i) \<in> set (snd (translate_text env j k 3))
         \<and> HttpPost (Suc i) \<in> set (snd (translate_text env j k 3))"
proof -
  from assms(2) have "i = 0 \<or> i = Suc 0" by auto
  then show ?thesis
  proof
    assume "i = 0"
    with assms show ?thesis by (simp add: translate_text_3)
  next
    assume i: "i = Suc 0"
    with assms(1,3) have "server_fault_or_exception (env 0)"
      by (auto simp: translate_text_3 split: if_splits)
    with i assms show ?thesis by (simp add: translate_text_3 numeral_2_eq_2)
  qed
qed

text \<open>
  C5, as the code has it. With the default bound of 3 attempts, \<open>translate_text\<close> posts at
  most 3 times. It makes attempt \<open>i + 1\<close> only when attempt \<open>i\<close> ended in a 5xx status or
  in an exception raised inside the \<^verbatim>\<open>try\<close> (the post raising, a 200 whose body does
  not decode, another status whose body cannot be read), and after each such end of one
  of the first two attempts it does wait \<open>i + 1\<close> seconds and make attempt \<open>i + 1\<close>; so
  the waits are 1s, then 2s. A 500, or a post that raises, followed by a 200 with a body
  that decodes (to a value other than \<^verbatim>\<open>null\<close>) succeeds with exactly 2 attempts; three
  5xx answers, or three posts that raise, fail after exactly 3 attempts; a status that is
  neither 200 nor 5xx and whose body is read fails at once, after that one attempt.
\<close>

theorem translate_text_retry_policy:
  "length (posts (snd (translate_text env j k 3))) \<le> 3
   \<and> (\<forall>i. HttpPost (Suc i) \<in> set (snd (translate_text env j k 3))
          \<longrightarrow> server_fault_or_exception (env i))
   \<and> (\<forall>i. k \<noteq> [] \<and> i < 2 \<and> HttpPost i \<in> set (snd (translate_text env j k 3))
            \<and> server_fault_or_exception (env i)
          \<longrightarrow> SleepSec (Suc i) \<in> set (snd (translate_text env j k 3))
              \<and> HttpPost (Suc i) \<in> set (snd (translate_text env j k 3)))
   \<and> (sleeps (snd (translate_text env j k 3)) = []
        \<or> sleeps (snd (translate_text env j k 3)) = [1]
        \<or> sleeps (snd (translate_text env j k 3)) = [1, 2])
   \<and> (k \<noteq> [] \<and> env 0 = Reply 500 d0 t0 \<and> env 1 = Reply 200 (Some v) t1 \<and> v \<noteq> JNull
        \<longrightarrow> translate_text env j k 3 = (Some v, [HttpPost 0, SleepSec 1, HttpPost 1]))
   \<and> (k \<noteq> [] \<and> env 0 = PostRaises \<and> env 1 = Reply 200 (Some v) t1 \<and> v \<noteq> JNull
        \<longrightarrow> translate_text env j k 3 = (Some v, [HttpPost 0, SleepSec 1, HttpPost 1]))
   \<and> (k \<noteq> []
        \<and> (\<forall>i < 3. \<exists>s d t. env i = Reply s d t \<and> 500 \<le> s \<and> s < 600)
        \<longrightarrow> translate_text env j k 3
              = (None, [HttpPost 0, SleepSec 1, HttpPost 1, SleepSec 2, HttpPost 2]))
   \<and> (k \<noteq> [] \<and> (\<forall>i < 3. env i = PostRaises)
        \<longrightarrow> translate_text env j k 3
              = (None, [HttpPost 0, SleepSec 1, HttpPost 1, SleepSec 2, HttpPost 2]))
   \<and> (k \<noteq> [] \<and> env 0 = Reply s d True \<and> s \<noteq> 200 \<and> \<not> (500 \<le> s \<and> s < 600)
        \<longrightarrow> translate_text env j k 3 = (None, [HttpPost 0]))"
proof (intro conjI allI impI)
  show "length (posts (snd (translate_text env j k 3))) \<le> 3"
    by (simp add: translate_text_3 posts_def)
next
  fix i
  assume "HttpPost (Suc i) \<in> set (snd (translate_text env j k 3))"
  then show "server_fault_or_exception (env i)"
    by (auto simp: translate_text_3 numeral_2_eq_2 split: if_splits)
next
  fix i
  assume a: "k \<noteq> [] \<and> i < 2 \<and> HttpPost i \<in> set (snd (translate_text env j k 3))
            \<and> server_fault_or_exception (env i)"
  with translate_text_goes_on [of k i env j]
  show "SleepSec (Suc i) \<in> set (snd (translate_text env j k 3))" by blast
  from a translate_text_goes_on [of k i env j]
  show "HttpPost (Suc i) \<in> set (snd (translate_text env j k 3))" by blast
next
  show "sleeps (snd (translate_text env j k 3)) = []
        \<or> sleeps (snd (translate_text env j k 3)) = [1]
        \<or> sleeps (snd (translate_text env j k 3)) = [1, 2]"
    by (simp add: translate_text_3 sleeps_def)
next
  assume "k \<noteq> [] \<and> env 0 = Reply 500 d0 t0 \<and> env 1 = Reply 200 (Some v) t1 \<and> v \<noteq> JNull"
  then show "translate_text env j k 3 = (Some v, [HttpPost 0, SleepSec 1, HttpPost 1])"
    by (simp add: translate_text_3 py_optional_def)
next
  assume "k \<noteq> [] \<and> env 0 = PostRaises \<and> env 1 = Reply 200 (Some v) t1 \<and> v \<noteq> JNull"
  then show "translate_text env j k 3 = (Some v, [HttpPost 0, SleepSec 1, HttpPost 1])"
    by (simp add: translate_text_3 py_optional_def)
next
  assume a: "k \<noteq> [] \<and> (\<forall>i < 3. \<exists>s d t. env i = Reply s d t \<and> 500 \<le> s \<and> s < 600)"
  have "\<forall>i < 3. server_fault_or_exception (env i)"
  proof (intro allI impI)
    fix i :: nat assume "i < 3"
    with a obtain s d t where "env i = Reply s d t" "500 \<le> s" "s < 600" by blast
    then show "server_fault_or_exception (env i)" by simp
  qed
  then have "server_fault_or_exception (env 0)" "server_fault_or_exception (env (Suc 0))"
    "server_fault_or_exception (env 2)" by simp_all
  with a show "translate_text env j k 3
              = (None, [HttpPost 0, SleepSec 1, HttpPost 1, SleepSec 2, HttpPost 2])"
    by (simp add: translate_text_3)
next
  assume a: "k \<noteq> [] \<and> (\<forall>i < 3. env i = PostRaises)"
  then have "env 0 = PostRaises" "env (Suc 0) = PostRaises" "env 2 = PostRaises" by simp_all
  with a show "translate_text env j k 3
              = (None, [HttpPost 0, SleepSec 1, HttpPost 1, SleepSec 2, HttpPost 2])"
    by (simp add: translate_text_3)
next
  assume "k \<noteq> [] \<and> env 0 = Reply s d True \<and> s \<noteq> 200 \<and> \<not> (500 \<le> s \<and> s < 600)"
  then show "translate_text env j k 3 = (None, [HttpPost 0])"
    by (simp add: translate_text_3)
qed

theorem translate_text_retry_policy_witness:
  "translate_text (\<lambda>i. if i = 0 then Reply 500 None True else Reply 200 (Some (JArr [JStr ''x''])) True)
       ''[1]'' ''key'' 3
     = (Some (JArr [JStr ''x'']), [HttpPost 0, SleepSec 1, HttpPost 1])
   \<and> translate_text (\<lambda>i. if i = 0 then PostRaises else Reply 200 (Some (JArr [JStr ''x''])) True)
       ''[1]'' ''key'' 3
     = (Some (JArr [JStr ''x'']), [HttpPost 0, SleepSec 1, HttpPost 1])
   \<and> translate_text (\<lambda>i. Reply 503 None True) ''[1]'' ''key'' 3
     = (None, [HttpPost 0, SleepSec 1, HttpPost 1, SleepSec 2, HttpPost 2])
   \<and> translate_text (\<lambda>i. PostRaises) ''[1]'' ''key'' 3
     = (None, [HttpPost 0, SleepSec 1, HttpPost 1, SleepSec 2, HttpPost 2])
   \<and> translate_text (\<lambda>i. Reply 404 None True) ''[1]'' ''key'' 3 = (None, [HttpPost 0])
   \<and> server_fault_or_exception (Reply 503 None True)
   \<and> HttpPost (Suc 0) \<in> set (snd (translate_text (\<lambda>i. PostRaises) ''[1]'' ''key'' 3))"
proof -
  let ?e1 = "\<lambda>i::nat. if i = 0 then Reply 500 None True else Reply 200 (Some (JArr [JStr ''x''])) True"
  let ?e2 = "\<lambda>i::nat. Reply 503 None True"
  let ?e3 = "\<lambda>i::nat. Reply 404 None True"
  let ?e4 = "\<lambda>i::nat. if i = 0 then PostRaises else Reply 200 (Some (JArr [JStr ''x''])) True"
  let ?e5 = "\<lambda>i::nat. PostRaises"
  have p1: "''key'' \<noteq> [] \<and> ?e1 0 = Reply 500 None True
            \<and> ?e1 1 = Reply 200 (Some (JArr [JStr ''x''])) True \<and> JArr [JStr ''x''] \<noteq> JNull"
    by simp
  have p2: "''key'' \<noteq> [] \<and> (\<forall>i < 3. \<exists>s d t. ?e2 i = Reply s d t \<and> 500 \<le> s \<and> s < 600)"
    by auto
  have p3: "''key'' \<noteq> [] \<and> ?e3 0 = Reply 404 None True \<and> (404::int) \<noteq> 200
            \<and> \<not> (500 \<le> (404::int) \<and> (404::int) < 600)"
    by simp
  have p4: "''key'' \<noteq> [] \<and> ?e4 0 = PostRaises
            \<and> ?e4 1 = Reply 200 (Some (JArr [JStr ''x''])) True \<and> JArr [JStr ''x''] \<noteq> JNull"
    by simp
  have p5: "''key'' \<noteq> [] \<and> (\<forall>i < 3. ?e5 i = PostRaises)"
    by simp
  note t1 = translate_text_retry_policy [where env = ?e1 and j = "''[1]''" and k = "''key''"
      and ?d0.0 = None and ?t0.0 = True and v = "JArr [JStr ''x'']" and ?t1.0 = True]
  note t2 = translate_text_retry_policy [where env = ?e2 and j = "''[1]''" and k = "''key''"]
  note t3 = translate_text_retry_policy [where env = ?e3 and j = "''[1]''" and k = "''key''"
      and s = 404 and d = None]
  note t4 = translate_text_retry_policy [where env = ?e4 and j = "''[1]''" and k = "''key''"
      and v = "JArr [JStr ''x'']" and ?t1.0 = True]
  note t5 = translate_text_retry_policy [where env = ?e5 and j = "''[1]''" and k = "''key''"]
  have r1: "translate_text ?e1 ''[1]'' ''key'' 3
              = (Some (JArr [JStr ''x'']), [HttpPost 0, SleepSec 1, HttpPost 1])"
    using t1 p1 by blast
  have r2: "translate_text ?e2 ''[1]'' ''key'' 3
              = (None, [HttpPost 0, SleepSec 1, HttpPost 1, SleepSec 2, HttpPost 2])"
    using t2 p2 by blast
  have r3: "translate_text ?e3 ''[1]'' ''key'' 3 = (None, [HttpPost 0])"
    using t3 p3 by blast
  have r4: "translate_text ?e4 ''[1]'' ''key'' 3
              = (Some (JArr [JStr ''x'']), [HttpPost 0, SleepSec 1, HttpPost 1])"
    using t4 p4 by blast
  have r5: "translate_text ?e5 ''[1]'' ''key'' 3
              = (None, [HttpPost 0, SleepSec 1, HttpPost 1, SleepSec 2, HttpPost 2])"
    using t5 p5 by blast
  have "HttpPost (Suc 0) \<in> set (snd (translate_text ?e2 ''[1]'' ''key'' 3))"
    unfolding r2 by simp
  with t2 have r6: "server_fault_or_exception (?e2 0)" by blast
  have p7: "''key'' \<noteq> [] \<and> (0::nat) < 2
      \<and> HttpPost 0 \<in> set (snd (translate_text ?e5 ''[1]'' ''key'' 3))
      \<and> server_fault_or_exception (?e5 0)"
    unfolding r5 by simp
  with t5 have r7: "HttpPost (Suc 0) \<in> set (snd (translate_text ?e5 ''[1]'' ''key'' 3))"
    by blast
  from r1 r2 r3 r4 r5 r6 r7 show ?thesis by simp
qed

section \<open>The daily cache\<close>

lemma cached_today_truthy: "cached_today today c g = Some d \<Longrightarrow> truthy d"
  by (auto simp: cached_today_def split: option.splits if_splits)

lemma cached_today_stored:
  "truthy t \<Longrightarrow> cached_today today (c(g \<mapsto> \<lparr>date = today, data = t\<rparr>)) g = Some t"
  by (simp add: cached_today_def)

lemma get_today_hit:
  "cached_today today c g = Some d \<Longrightarrow>
   get_today_horoscope_for_guild today f env g k c = (Some d, c, [])"
  by (simp add: get_today_horoscope_for_guild_def)

lemma get_today_miss:
  assumes "cached_today today c g = None"
    and "get_today_horoscope_for_guild today f env g k c = (r, c', es)"
  shows "(r = None \<and> c' = c \<and> (\<exists>es'. es = FetchSource # es'))
       \<or> (\<exists>t es'. r = Some t \<and> truthy t
             \<and> c' = c(g \<mapsto> \<lparr>date = today, data = t\<rparr>) \<and> es = FetchSource # es')"
  using assms unfolding get_today_horoscope_for_guild_def
  by (auto split: option.splits if_splits prod.splits)

text \<open>The three ways a lookup ends: served from the cache, failed, or computed and stored.\<close>

lemma get_today_cases:
  assumes "get_today_horoscope_for_guild today f env g k c = (r, c', es)"
  shows "(\<exists>d. cached_today today c g = Some d \<and> r = Some d \<and> c' = c \<and> es = [])
   \<or> (cached_today today c g = None \<and> r = None \<and> c' = c \<and> (\<exists>es'. es = FetchSource # es'))
   \<or> (\<exists>t es'. cached_today today c g = None \<and> r = Some t \<and> truthy t
         \<and> c' = c(g \<mapsto> \<lparr>date = today, data = t\<rparr>) \<and> es = FetchSource # es')"
proof (cases "cached_today today c g")
  case None
  from get_today_miss [OF None assms] None show ?thesis by blast
next
  case (Some d)
  from get_today_hit [OF Some, of f env k] assms
  have "r = Some d" "c' = c" "es = []" by simp_all
  with Some show ?thesis by blast
qed

lemma get_today_miss_runs:
  assumes "cached_today today c g = None"
  shows "\<exists>r c' es. get_today_horoscope_for_guild today f env g k c = (r, c', FetchSource # es)"
proof -
  obtain r c' es where e: "get_today_horoscope_for_guild today f env g k c = (r, c', es)"
    by (cases "get_today_horoscope_for_guild today f env g k c") auto
  from get_today_miss [OF assms e] obtain es' where "es = FetchSource # es'" by blast
  with e show ?thesis by blast
qed

lemma translate_text_first_post:
  "k \<noteq> [] \<Longrightarrow> \<exists>es. snd (translate_text env j k 3) = HttpPost 0 # es"
  by (simp add: translate_text_3)

text \<open>On a miss with a usable source and a key, the lookup fetches and then posts.\<close>

lemma get_today_miss_translates:
  assumes "cached_today today c g = None" and "\<not> no_source f" and "k \<noteq> []"
  shows "\<exists>r c' es. get_today_horoscope_for_guild today f env g k c
           = (r, c', FetchSource # HttpPost 0 # es)"
proof -
  obtain tr tes where t: "translate_text env (the f) k 3 = (tr, tes)"
    by (cases "translate_text env (the f) k 3")
  from translate_text_first_post [OF assms(3), of env "the f"] t
  obtain es' where tes: "tes = HttpPost 0 # es'" by auto
  show ?thesis
  proof (cases tr)
    case None
    with assms t tes show ?thesis by (simp add: get_today_horoscope_for_guild_def)
  next
    case (Some v)
    with assms t tes show ?thesis
      by (cases "truthy v") (simp_all add: get_today_horoscope_for_guild_def)
  qed
qed

text \<open>A lookup on an empty cache with a source and an endpoint that answer at once.\<close>

lemma get_today_example:
  "get_today_horoscope_for_guild ''20240101'' (Some ''[1]'')
       (\<lambda>i. Reply 200 (Some (JArr [JStr ''x''])) True) 7 ''key'' Map.empty
     = (Some (JArr [JStr ''x'']),
        [7 \<mapsto> \<lparr>date = ''20240101'', data = JArr [JStr ''x'']\<rparr>],
        [FetchSource, HttpPost 0, CacheStore 7])"
  by (simp add: get_today_horoscope_for_guild_def cached_today_def no_source_def
      translate_text_3 py_optional_def)

lemma get_today_example_fails:
  "get_today_horoscope_for_guild ''20240101'' (Some ''[1]'')
       (\<lambda>i. Reply 404 None True) 7 ''key'' Map.empty
     = (None, Map.empty, [FetchSource, HttpPost 0])"
  by (simp add: get_today_horoscope_for_guild_def cached_today_def no_source_def
      translate_text_3 py_optional_def)

text \<open>
  C6. After a lookup for tenant \<open>g\<close> on day \<open>today\<close> that succeeded, leaving the cache
  \<open>c1\<close>, a second lookup for the same tenant and day returns the same payload whatever
  the source and the endpoint would answer, leaves the cache as it is and has no effect:
  no source fetch and no translation post.
\<close>

theorem second_lookup_served_from_cache:
  assumes "get_today_horoscope_for_guild today f1 e1 g k1 c = (Some v, c1, es1)"
  shows "get_today_horoscope_for_guild today f2 e2 g k2 c1 = (Some v, c1, [])"
proof -
  from get_today_cases [OF assms]
  have "cached_today today c1 g = Some v"
    by (auto simp: cached_today_stored)
  then show ?thesis by (rule get_today_hit)
qed

theorem second_lookup_served_from_cache_witness:
  "get_today_horoscope_for_guild ''20240101'' None (\<lambda>i. PostRaises) 7 []
       [7 \<mapsto> \<lparr>date = ''20240101'', data = JArr [JStr ''x'']\<rparr>]
     = (Some (JArr [JStr ''x'']),
        [7 \<mapsto> \<lparr>date = ''20240101'', data = JArr [JStr ''x'']\<rparr>], [])"
  by (rule second_lookup_served_from_cache [OF get_today_example])

text \<open>
  C7. A lookup that misses the cache and whose source fetch gives nothing usable, or whose
  translation gives nothing or an empty value, returns a failure and leaves the cache as
  it was; and after any lookup that returned a failure the cache is the one before the
  call, so the next lookup for the same tenant and day starts with a source fetch again
  and, when the source is usable and a key is given, goes on to post to the translation
  endpoint.
\<close>

theorem failed_lookup_caches_nothing:
  "(cached_today today c g = None
      \<and> (no_source f1
          \<or> (case fst (translate_text e1 (the f1) k1 3) of None \<Rightarrow> True | Some t \<Rightarrow> \<not> truthy t))
      \<longrightarrow> (\<exists>es. get_today_horoscope_for_guild today f1 e1 g k1 c = (None, c, es)))
   \<and> (get_today_horoscope_for_guild today f1 e1 g k1 c = (None, c1, es1)
      \<longrightarrow> c1 = c
          \<and> (\<exists>r c2 es. get_today_horoscope_for_guild today f2 e2 g k2 c1
                = (r, c2, FetchSource # es)))
   \<and> (get_today_horoscope_for_guild today f1 e1 g k1 c = (None, c1, es1)
        \<and> \<not> no_source f2 \<and> k2 \<noteq> []
      \<longrightarrow> (\<exists>r c2 es. get_today_horoscope_for_guild today f2 e2 g k2 c1
                = (r, c2, FetchSource # HttpPost 0 # es)))"
proof (intro conjI impI)
  assume a: "cached_today today c g = None
      \<and> (no_source f1
          \<or> (case fst (translate_text e1 (the f1) k1 3) of None \<Rightarrow> True | Some t \<Rightarrow> \<not> truthy t))"
  then show "\<exists>es. get_today_horoscope_for_guild today f1 e1 g k1 c = (None, c, es)"
    unfolding get_today_horoscope_for_guild_def
    by (auto split: option.splits prod.splits)
next
  assume a: "get_today_horoscope_for_guild today f1 e1 g k1 c = (None, c1, es1)"
  from get_today_cases [OF a] have m: "cached_today today c g = None" and e: "c1 = c"
    by auto
  from e show "c1 = c" .
  from get_today_miss_runs [OF m] e
  show "\<exists>r c2 es. get_today_horoscope_for_guild today f2 e2 g k2 c1 = (r, c2, FetchSource # es)"
    by simp
next
  assume a: "get_today_horoscope_for_guild today f1 e1 g k1 c = (None, c1, es1)
        \<and> \<not> no_source f2 \<and> k2 \<noteq> []"
  then have b: "get_today_horoscope_for_guild today f1 e1 g k1 c = (None, c1, es1)"
    and ns: "\<not> no_source f2" and k: "k2 \<noteq> []"
    by simp_all
  from get_today_cases [OF b] have m: "cached_today today c g = None" and e: "c1 = c"
    by auto
  from get_today_miss_translates [OF m ns k] e
  show "\<exists>r c2 es. get_today_horoscope_for_guild today f2 e2 g k2 c1
          = (r, c2, FetchSource # HttpPost 0 # es)"
    by simp
qed

theorem failed_lookup_caches_nothing_witness:
  "(\<exists>es. get_today_horoscope_for_guild ''20240101'' None (\<lambda>i. PostRaises) 7 ''key'' Map.empty
           = (None, Map.empty, es))
   \<and> (\<exists>r c2 es. get_today_horoscope_for_guild ''20240101'' (Some ''[1]'')
           (\<lambda>i. Reply 200 (Some (JArr [JStr ''x''])) True) 7 ''key'' Map.empty
         = (r, c2, FetchSource # es))
   \<and> (\<exists>r c2 es. get_today_horoscope_for_guild ''20240101'' (Some ''[1]'')
           (\<lambda>i. Reply 200 (Some (JArr [JStr ''x''])) True) 7 ''key'' Map.empty
         = (r, c2, FetchSource # HttpPost 0 # es))"
proof -
  note t = failed_lookup_caches_nothing [of "''20240101''" Map.empty 7 None "\<lambda>i. PostRaises"
      "''key''" Map.empty "[FetchSource, HttpPost 0]" "Some ''[1]''"
      "\<lambda>i. Reply 200 (Some (JArr [JStr ''x''])) True" "''key''"]
  have h1: "cached_today ''20240101'' Map.empty 7 = None \<and> (no_source None
      \<or> (case fst (translate_text (\<lambda>i. PostRaises) (the None) ''key'' 3) of
            None \<Rightarrow> True | Some t \<Rightarrow> \<not> truthy t))"
    by (simp add: cached_today_def no_source_def)
  from t h1 have r1: "\<exists>es. get_today_horoscope_for_guild ''20240101'' None (\<lambda>i. PostRaises) 7
      ''key'' Map.empty = (None, Map.empty, es)"
    by blast
  note u = failed_lookup_caches_nothing [of "''20240101''" Map.empty 7 "Some ''[1]''"
      "\<lambda>i. Reply 404 None True" "''key''" Map.empty "[FetchSource, HttpPost 0]" "Some ''[1]''"
      "\<lambda>i. Reply 200 (Some (JArr [JStr ''x''])) True" "''key''"]
  from u get_today_example_fails
  have r2: "\<exists>r c2 es. get_today_horoscope_for_guild ''20240101'' (Some ''[1]'')
           (\<lambda>i. Reply 200 (Some (JArr [JStr ''x''])) True) 7 ''key'' Map.empty
         = (r, c2, FetchSource # es)"
    by blast
  have h3: "\<not> no_source (Some ''[1]'') \<and> ''key'' \<noteq> []" by (simp add: no_source_def)
  from u get_today_example_fails h3
  have r3: "\<exists>r c2 es. get_today_horoscope_for_guild ''20240101'' (Some ''[1]'')
           (\<lambda>i. Reply 200 (Some (JArr [JStr ''x''])) True) 7 ''key'' Map.empty
         = (r, c2, FetchSource # HttpPost 0 # es)"
    by blast
  from r1 r2 r3 show ?thesis by blast
qed

text \<open>
  C10. A lookup never returns an empty payload: what it returns is a failure or a value
  that is true in Python's sense, so never the empty list; and an entry stamped with
  today's date whose payload is empty counts as a miss: the lookup runs the pipeline.
\<close>

theorem lookup_never_returns_empty:
  "(fst (get_today_horoscope_for_guild today f e g k c) = Some v \<longrightarrow> truthy v \<and> v \<noteq> JArr [])
   \<and> (c g = Some entry \<and> date entry = today \<and> \<not> truthy (data entry)
      \<longrightarrow> cached_today today c g = None
          \<and> (\<exists>r c' es. get_today_horoscope_for_guild today f e g k c
                = (r, c', FetchSource # es)))"
proof (intro conjI impI)
  assume a: "fst (get_today_horoscope_for_guild today f e g k c) = Some v"
  obtain r c' es where eq: "get_today_horoscope_for_guild today f e g k c = (r, c', es)"
    by (cases "get_today_horoscope_for_guild today f e g k c") auto
  with a have "r = Some v" by simp
  with get_today_cases [OF eq] show "truthy v" by (auto dest: cached_today_truthy)
  then show "v \<noteq> JArr []" by auto
next
  assume a: "c g = Some entry \<and> date entry = today \<and> \<not> truthy (data entry)"
  then show m: "cached_today today c g = None" by (simp add: cached_today_def)
  from get_today_miss_runs [OF m]
  show "\<exists>r c' es. get_today_horoscope_for_guild today f e g k c = (r, c', FetchSource # es)" .
qed

theorem lookup_never_returns_empty_witness:
  "truthy (JArr [JStr ''x''])
   \<and> (\<exists>r c' es. get_today_horoscope_for_guild ''20240101'' None (\<lambda>i. PostRaises) 7 ''key''
          [7 \<mapsto> \<lparr>date = ''20240101'', data = JArr []\<rparr>] = (r, c', FetchSource # es))"
proof -
  note t = lookup_never_returns_empty [of "''20240101''" "Some ''[1]''"
      "\<lambda>i. Reply 200 (Some (JArr [JStr ''x''])) True" 7 "''key''" Map.empty "JArr [JStr ''x'']"]
  have "fst (get_today_horoscope_for_guild ''20240101'' (Some ''[1]'')
       (\<lambda>i. Reply 200 (Some (JArr [JStr ''x''])) True) 7 ''key'' Map.empty)
       = Some (JArr [JStr ''x''])"
    by (simp add: get_today_example)
  with t have r1: "truthy (JArr [JStr ''x''])" by blast
  note u = lookup_never_returns_empty [of "''20240101''" None "\<lambda>i. PostRaises" 7 "''key''"
      "[7 \<mapsto> \<lparr>date = ''20240101'', data = JArr []\<rparr>]" _
      "\<lparr>date = ''20240101'', data = JArr []\<rparr>"]
  have h: "[7 \<mapsto> \<lparr>date = ''20240101'', data = JArr []\<rparr>] (7::int)
             = Some \<lparr>date = ''20240101'', data = JArr []\<rparr>
           \<and> date \<lparr>date = ''20240101'', data = JArr []\<rparr> = ''20240101''
           \<and> \<not> truthy (data \<lparr>date = ''20240101'', data = JArr []\<rparr>)"
    by simp
  from u h have r2: "\<exists>r c' es. get_today_horoscope_for_guild ''20240101'' None (\<lambda>i. PostRaises)
      7 ''key'' [7 \<mapsto> \<lparr>date = ''20240101'', data = JArr []\<rparr>] = (r, c', FetchSource # es)"
    by blast
  from r1 r2 show ?thesis by blast
qed

section \<open>One tick\<close>

lemma spawned_simps [simp]:
  "spawned [] = []"
  "spawned (Spawn g ch k m # es) = g # spawned es"
  "spawned (Mark g day # es) = spawned es"
  "spawned (SaveFile # es) = spawned es"
  "spawned (LogSaveError # es) = spawned es"
  "spawned (SleepSec n # es) = spawned es"
  "spawned (ManualPost g ch k m # es) = spawned es"
  "spawned (es @ es') = spawned es @ spawned es'"
  by (simp_all add: spawned_def)

lemma marks_simps [simp]:
  "marks [] = []"
  "marks (Spawn g ch k m # es) = marks es"
  "marks (Mark g day # es) = (g, day) # marks es"
  "marks (SaveFile # es) = marks es"
  "marks (LogSaveError # es) = marks es"
  "marks (SleepSec n # es) = marks es"
  "marks (ManualPost g ch k m # es) = marks es"
  "marks (es @ es') = marks es @ marks es'"
  by (simp_all add: marks_def)

lemma save_guild_config_quiet [simp]:
  "spawned (snd (save_guild_config outcome gs d)) = []"
  "marks (snd (save_guild_config outcome gs d)) = []"
  by (cases outcome; simp add: save_guild_config_def)+

text \<open>The two views agree with the tick.\<close>

lemma tick_items_view:
  "tick_items t seen todo d = (x, gs', d', es) \<Longrightarrow>
     gs' = seen @ after_tick t todo \<and> spawned es = tick_spawns t todo
     \<and> marks es = map (\<lambda>g. (g, today_str t)) (tick_spawns t todo)"
proof (induction todo arbitrary: seen d x gs' d' es)
  case Nil
  then show ?case by simp
next
  case (Cons a todo)
  obtain g c where a: "a = (g, c)" by (cases a)
  show ?case
  proof (cases "evaluate t c")
    case Skip
    with Cons.prems a have "tick_items t (seen @ [(g, c)]) todo d = (x, gs', d', es)" by simp
    from Cons.IH [OF this] Skip a show ?thesis by simp
  next
    case (Raise e)
    with Cons.prems a show ?thesis by auto
  next
    case (Fire ch key m)
    let ?c = "c\<lparr>last_post_date := Some (today_str t)\<rparr>"
    obtain d1 es1 where s: "save_guild_config (save_goes t g) (seen @ (g, ?c) # todo) d = (d1, es1)"
      by (cases "save_guild_config (save_goes t g) (seen @ (g, ?c) # todo) d")
    obtain x2 gs2 d2 es2 where r: "tick_items t (seen @ [(g, ?c)]) todo d1 = (x2, gs2, d2, es2)"
      by (cases "tick_items t (seen @ [(g, ?c)]) todo d1")
    from Cons.prems a Fire s r
    have eq: "x = x2" "gs' = gs2" "d' = d2"
      "es = Spawn g ch key m # Mark g (today_str t) # es1 @ es2"
      by simp_all
    from s have q: "spawned es1 = []" "marks es1 = []"
      using save_guild_config_quiet [of "save_goes t g" "seen @ (g, ?c) # todo" d] by simp_all
    from Cons.IH [OF r] eq q Fire a show ?thesis by simp
  qed
qed

lemma tick_spawns_keys: "set (tick_spawns t todo) \<subseteq> fst ` set todo"
proof (induction todo)
  case Nil
  then show ?case by simp
next
  case (Cons a todo)
  obtain g c where a: "a = (g, c)" by (cases a)
  from Cons a show ?case by (cases "evaluate t c") auto
qed

lemma tick_spawns_distinct: "distinct (map fst todo) \<Longrightarrow> distinct (tick_spawns t todo)"
proof (induction todo)
  case Nil
  then show ?case by simp
next
  case (Cons a todo)
  obtain g c where a: "a = (g, c)" by (cases a)
  from Cons a tick_spawns_keys [of t todo] show ?case
    by (cases "evaluate t c") auto
qed

lemma after_tick_keys [simp]: "map fst (after_tick t todo) = map fst todo"
proof (induction todo)
  case Nil
  then show ?case by simp
next
  case (Cons a todo)
  obtain g c where a: "a = (g, c)" by (cases a)
  from Cons a show ?case by (cases "evaluate t c") auto
qed

lemma evaluate_marked: "last_post_date c = Some (today_str t) \<Longrightarrow> evaluate t c = Skip"
  by (simp add: evaluate_def split: option.splits)

text \<open>A guild the tick dispatches holds today's marker afterwards.\<close>

lemma tick_spawns_marked:
  "distinct (map fst todo) \<Longrightarrow> g \<in> set (tick_spawns t todo) \<Longrightarrow>
   last_post_date_of (after_tick t todo) g = Some (today_str t)"
proof (induction todo)
  case Nil
  then show ?case by simp
next
  case (Cons a todo)
  obtain k c where a: "a = (k, c)" by (cases a)
  show ?case
  proof (cases "evaluate t c")
    case Skip
    with Cons a tick_spawns_keys [of t todo] show ?thesis
      by (auto simp: last_post_date_of_def)
  next
    case (Raise e)
    with Cons.prems a show ?thesis by simp
  next
    case (Fire ch key m)
    with Cons a tick_spawns_keys [of t todo] show ?thesis
      by (auto simp: last_post_date_of_def)
  qed
qed

text \<open>A guild that holds today's marker is not dispatched and keeps the marker.\<close>

lemma marked_not_spawned:
  "distinct (map fst todo) \<Longrightarrow> last_post_date_of todo g = Some (today_str t) \<Longrightarrow>
   g \<notin> set (tick_spawns t todo) \<and> last_post_date_of (after_tick t todo) g = Some (today_str t)"
proof (induction todo)
  case Nil
  then show ?case by (simp add: last_post_date_of_def)
next
  case (Cons a todo)
  obtain k c where a: "a = (k, c)" by (cases a)
  show ?case
  proof (cases "k = g")
    case True
    with Cons.prems a have m: "last_post_date c = Some (today_str t)"
      by (simp add: last_post_date_of_def)
    from Cons.prems a True have "g \<notin> fst ` set todo" by auto
    with tick_spawns_keys [of t todo] have "g \<notin> set (tick_spawns t todo)" by blast
    with evaluate_marked [OF m] m a True show ?thesis
      by (simp add: last_post_date_of_def)
  next
    case False
    with Cons.prems a have h: "last_post_date_of todo g = Some (today_str t)"
      by (simp add: last_post_date_of_def)
    with Cons a have ih: "g \<notin> set (tick_spawns t todo)
        \<and> last_post_date_of (after_tick t todo) g = Some (today_str t)"
      by simp
    with False a h show ?thesis
      by (cases "evaluate t c") (auto simp: last_post_date_of_def)
  qed
qed

section \<open>Commands and the marker\<close>

lemma update_cfg_keys [simp]: "map fst (update_cfg g f gs) = map fst gs"
  by (induction gs) (auto simp: update_cfg_def)

lemma map_of_update_cfg:
  "map_of (update_cfg g f gs) k = (if k = g then map_option f (map_of gs k) else map_of gs k)"
  by (induction gs) (auto simp: update_cfg_def)

lemma last_post_date_of_update_cfg:
  "(\<And>c. last_post_date (f c) = last_post_date c) \<Longrightarrow>
   last_post_date_of (update_cfg g f gs) k = last_post_date_of gs k"
  by (simp add: last_post_date_of_def map_of_update_cfg split: option.splits)

lemma get_or_create_distinct:
  "distinct (map fst gs) \<Longrightarrow> distinct (map fst (get_or_create_guild_settings g gs))"
  by (auto simp: get_or_create_guild_settings_def map_of_eq_None_iff)

lemma last_post_date_of_get_or_create [simp]:
  "last_post_date_of (get_or_create_guild_settings g gs) k = last_post_date_of gs k"
  by (auto simp: get_or_create_guild_settings_def last_post_date_of_def default_cfg_def
      map_add_def split: option.splits)

text \<open>
  No command writes \<^verbatim>\<open>last_post_date\<close>, creates a dispatch task of the scheduler's, or
  gives a guild a second entry.
\<close>

lemma handle_keeps_marker:
  assumes "handle cmd outcome chans g gs d = (gs', d', es, r)"
  shows "last_post_date_of gs' k = last_post_date_of gs k \<and> spawned es = [] \<and> marks es = []
         \<and> (distinct (map fst gs) \<longrightarrow> distinct (map fst gs'))"
proof (cases cmd)
  case (Channel target)
  with assms show ?thesis
    by (auto simp: split_beta Let_def last_post_date_of_update_cfg get_or_create_distinct)
next
  case (Apikey api_key)
  with assms show ?thesis
    by (auto simp: split_beta Let_def last_post_date_of_update_cfg get_or_create_distinct)
next
  case (Time h m)
  with assms show ?thesis
    by (auto simp: split_beta Let_def last_post_date_of_update_cfg get_or_create_distinct)
next
  case (Mention mode role)
  with assms show ?thesis
    by (auto simp: split_beta Let_def last_post_date_of_update_cfg get_or_create_distinct
        split: if_splits)
next
  case Config
  with assms show ?thesis
    by (auto simp: get_or_create_distinct)
next
  case Test
  with assms show ?thesis
    by (auto simp: Let_def get_or_create_distinct split: option.splits if_splits)
qed

section \<open>Runs\<close>

lemma count_list_distinct: "distinct xs \<Longrightarrow> count_list xs x \<le> 1"
  by (induction xs) auto

lemma count_list_map_pair:
  "count_list (map (\<lambda>g. (g, day)) xs) (x, day') = (if day' = day then count_list xs x else 0)"
  by (induction xs) auto

lemma absent_one_block: "day \<notin> set xs \<Longrightarrow> one_block day xs"
  by (induction xs) auto

lemma day_left_one_block: "day_left day xs \<Longrightarrow> one_block day xs"
  by (cases xs) (auto simp: absent_one_block split: if_splits)

text \<open>What one event does to the keys, the markers, the tasks created and the marker writes.\<close>

lemma step_Command:
  assumes "step (Command g cmd outcome chans) s = (s', es)"
  shows "last_post_date_of (guild_settings s') k = last_post_date_of (guild_settings s) k
         \<and> spawned es = [] \<and> marks es = []
         \<and> (distinct (map fst (guild_settings s)) \<longrightarrow> distinct (map fst (guild_settings s')))"
proof -
  obtain gs' d' es' r where h: "handle cmd outcome chans g (guild_settings s) (disk s) = (gs', d', es', r)"
    by (cases "handle cmd outcome chans g (guild_settings s) (disk s)")
  with assms have "guild_settings s' = gs'" "es = es'" by auto
  with handle_keeps_marker [OF h, of k] show ?thesis by simp
qed

lemma step_Tick:
  assumes "step (Tick t) s = (s', es)"
  shows "map fst (guild_settings s') = map fst (guild_settings s)
         \<and> marks es = map (\<lambda>g. (g, today_str t)) (spawned es)
         \<and> (distinct (map fst (guild_settings s)) \<longrightarrow> distinct (spawned es))
         \<and> (distinct (map fst (guild_settings s)) \<and> g \<in> set (spawned es)
              \<longrightarrow> last_post_date_of (guild_settings s') g = Some (today_str t))
         \<and> (distinct (map fst (guild_settings s))
              \<and> last_post_date_of (guild_settings s) g = Some (today_str t)
              \<longrightarrow> g \<notin> set (spawned es)
                  \<and> last_post_date_of (guild_settings s') g = Some (today_str t))"
proof (cases "stopped s")
  case (Some e)
  with assms have "s' = s" "es = []" by simp_all
  then show ?thesis by simp
next
  case None
  obtain x gs' d' es' where r: "tick_items t [] (guild_settings s) (disk s) = (x, gs', d', es')"
    by (cases "tick_items t [] (guild_settings s) (disk s)")
  from tick_items_view [OF r]
  have v: "gs' = after_tick t (guild_settings s)" "spawned es' = tick_spawns t (guild_settings s)"
    "marks es' = map (\<lambda>g. (g, today_str t)) (tick_spawns t (guild_settings s))"
    by simp_all
  from assms None r have gs: "guild_settings s' = gs'"
    by (cases x) (auto simp: tick_def)
  from assms None r have es: "spawned es = spawned es'" "marks es = marks es'"
    by (cases x; auto simp: tick_def)+
  from gs es v show ?thesis
    using tick_spawns_distinct [of "guild_settings s" t]
      tick_spawns_marked [of "guild_settings s" g t]
      marked_not_spawned [of "guild_settings s" g t]
    by simp
qed

lemma run_Cons:
  "step ev s = (s', es) \<Longrightarrow> run evs s' = (s'', es') \<Longrightarrow> run (ev # evs) s = (s'', es @ es')"
  by simp

text \<open>Each marker write of a run belongs to a task the scheduler created, in order.\<close>

lemma run_marks_spawned: "map fst (marks (snd (run evs s))) = spawned (snd (run evs s))"
proof (induction evs arbitrary: s)
  case Nil
  then show ?case by simp
next
  case (Cons ev evs)
  obtain s' es where st: "step ev s = (s', es)" by (cases "step ev s")
  obtain s'' es' where r: "run evs s' = (s'', es')" by (cases "run evs s'")
  from Cons.IH [of s'] r have ih: "map fst (marks es') = spawned es'" by simp
  have "map fst (marks es) = spawned es"
  proof (cases ev)
    case (Tick t)
    with step_Tick [of t s s' es] st show ?thesis by (simp add: comp_def)
  next
    case (Command g cmd outcome chans)
    with step_Command [of g cmd outcome chans s s' es] st show ?thesis by simp
  qed
  with ih run_Cons [OF st r] show ?case by simp
qed

lemma run_keeps_distinct:
  "distinct (map fst (guild_settings s)) \<Longrightarrow> distinct (map fst (guild_settings (fst (run evs s))))"
proof (induction evs arbitrary: s)
  case Nil
  then show ?case by simp
next
  case (Cons ev evs)
  obtain s' es where st: "step ev s = (s', es)" by (cases "step ev s")
  obtain s'' es' where r: "run evs s' = (s'', es')" by (cases "run evs s'")
  have "distinct (map fst (guild_settings s'))"
  proof (cases ev)
    case (Tick t)
    with step_Tick [of t s s' es] st Cons.prems show ?thesis by simp
  next
    case (Command g cmd outcome chans)
    with step_Command [of g cmd outcome chans s s' es] st Cons.prems show ?thesis by simp
  qed
  from Cons.IH [OF this] r run_Cons [OF st r] show ?case by simp
qed

text \<open>Ticks of other days write no marker for day \<open>D\<close>.\<close>

lemma run_other_days:
  "D \<notin> set (tick_days evs) \<Longrightarrow> (T, D) \<notin> set (marks (snd (run evs s)))"
proof (induction evs arbitrary: s)
  case Nil
  then show ?case by simp
next
  case (Cons ev evs)
  obtain s' es where st: "step ev s = (s', es)" by (cases "step ev s")
  obtain s'' es' where r: "run evs s' = (s'', es')" by (cases "run evs s'")
  from Cons.prems have "D \<notin> set (tick_days evs)" by (cases ev) auto
  from Cons.IH [OF this, of s'] r have ih: "(T, D) \<notin> set (marks es')" by simp
  have "(T, D) \<notin> set (marks es)"
  proof (cases ev)
    case (Tick t)
    with Cons.prems have "today_str t \<noteq> D" by auto
    with step_Tick [of t s s' es] st Tick show ?thesis by auto
  next
    case (Command g cmd outcome chans)
    with step_Command [of g cmd outcome chans s s' es] st show ?thesis by simp
  qed
  with ih run_Cons [OF st r] show ?case by simp
qed

text \<open>
  Once a guild holds the marker of day \<open>D\<close>, no tick writes it again while the day
  lasts, nor after the day is left.
\<close>

lemma run_marked:
  "distinct (map fst (guild_settings s)) \<Longrightarrow> last_post_date_of (guild_settings s) T = Some D \<Longrightarrow>
   day_left D (tick_days evs) \<Longrightarrow> (T, D) \<notin> set (marks (snd (run evs s)))"
proof (induction evs arbitrary: s)
  case Nil
  then show ?case by simp
next
  case (Cons ev evs)
  obtain s' es where st: "step ev s = (s', es)" by (cases "step ev s")
  obtain s'' es' where r: "run evs s' = (s'', es')" by (cases "run evs s'")
  show ?case
  proof (cases ev)
    case (Command g cmd outcome chans)
    from step_Command [of g cmd outcome chans s s' es T] st Command Cons.prems
    have a: "last_post_date_of (guild_settings s') T = Some D" "marks es = []"
      "distinct (map fst (guild_settings s'))"
      by simp_all
    from Cons.prems Command have "day_left D (tick_days evs)" by simp
    from Cons.IH [OF a(3) a(1) this] r have "(T, D) \<notin> set (marks es')" by simp
    with a run_Cons [OF st r] show ?thesis by simp
  next
    case (Tick t)
    note f = step_Tick [of t s s' es T]
    show ?thesis
    proof (cases "today_str t = D")
      case True
      with f st Tick Cons.prems
      have a: "last_post_date_of (guild_settings s') T = Some D" "T \<notin> set (spawned es)"
        "distinct (map fst (guild_settings s'))" "marks es = map (\<lambda>g. (g, today_str t)) (spawned es)"
        by simp_all
      then have b: "(T, D) \<notin> set (marks es)" by auto
      from Cons.prems Tick True have "day_left D (tick_days evs)" by simp
      from Cons.IH [OF a(3) a(1) this] r have "(T, D) \<notin> set (marks es')" by simp
      with b run_Cons [OF st r] show ?thesis by simp
    next
      case False
      with f st Tick have b: "(T, D) \<notin> set (marks es)" by auto
      from Cons.prems Tick False have "D \<notin> set (tick_days evs)" by simp
      from run_other_days [OF this, of T s'] r have "(T, D) \<notin> set (marks es')" by simp
      with b run_Cons [OF st r] show ?thesis by simp
    qed
  qed
qed

lemma run_once_per_day:
  "distinct (map fst (guild_settings s)) \<Longrightarrow> one_block D (tick_days evs) \<Longrightarrow>
   count_list (marks (snd (run evs s))) (T, D) \<le> 1"
proof (induction evs arbitrary: s)
  case Nil
  then show ?case by simp
next
  case (Cons ev evs)
  obtain s' es where st: "step ev s = (s', es)" by (cases "step ev s")
  obtain s'' es' where r: "run evs s' = (s'', es')" by (cases "run evs s'")
  have eq: "marks (snd (run (ev # evs) s)) = marks es @ marks es'"
    using run_Cons [OF st r] by simp
  show ?case
  proof (cases ev)
    case (Command g cmd outcome chans)
    from step_Command [of g cmd outcome chans s s' es T] st Command Cons.prems
    have a: "marks es = []" "distinct (map fst (guild_settings s'))" by simp_all
    from Cons.prems Command have "one_block D (tick_days evs)" by simp
    from Cons.IH [OF a(2) this] r have "count_list (marks es') (T, D) \<le> 1" by simp
    with a eq show ?thesis by simp
  next
    case (Tick t)
    note f = step_Tick [of t s s' es T]
    from f st Tick Cons.prems
    have a: "distinct (map fst (guild_settings s'))"
      "marks es = map (\<lambda>g. (g, today_str t)) (spawned es)" "distinct (spawned es)"
      by simp_all
    show ?thesis
    proof (cases "today_str t = D \<and> T \<in> set (spawned es)")
      case True
      with f st Tick Cons.prems have m: "last_post_date_of (guild_settings s') T = Some D"
        by simp
      from Cons.prems Tick True have "day_left D (tick_days evs)" by simp
      from run_marked [OF a(1) m this] r have "count_list (marks es') (T, D) = 0" by simp
      moreover from a count_list_distinct [of "spawned es" T]
      have "count_list (marks es) (T, D) \<le> 1"
        by (simp add: count_list_map_pair)
      ultimately show ?thesis using eq by simp
    next
      case False
      with a have z: "count_list (marks es) (T, D) = 0"
        by (auto simp: count_list_map_pair)
      have "count_list (marks es') (T, D) \<le> 1"
      proof (cases "today_str t = D")
        case True
        with Cons.prems Tick have dl: "day_left D (tick_days evs)" by simp
        from day_left_one_block [OF dl] have "one_block D (tick_days evs)" .
        from Cons.IH [OF a(1) this] r show ?thesis by simp
      next
        case F: False
        with Cons.prems Tick have "one_block D (tick_days evs)" by simp
        from Cons.IH [OF a(1) this] r show ?thesis by simp
      qed
      with z eq show ?thesis by simp
    qed
  qed
qed

section \<open>Examples of ticks\<close>

text \<open>
  A guild with channel 10, key \<open>k\<close> and the default time 08:00, and two ticks at 08:00 of
  the same day, 30 seconds apart: the first creates the task, marks the day and saves,
  the second does nothing.
\<close>

lemma tick_example:
  "tick \<lparr>today_str = ''20240101'', now_hour = 8, now_minute = 0,
         get_channel = (\<lambda>ch. True), save_goes = (\<lambda>g. Saved)\<rparr>
     [(1, default_cfg\<lparr>channel_id := Some 10, gemini_api_key := Some ''k''\<rparr>)] NoFile
   = (None,
      [(1, default_cfg\<lparr>channel_id := Some 10, gemini_api_key := Some ''k'',
                       last_post_date := Some ''20240101''\<rparr>)],
      File [(1, default_cfg\<lparr>channel_id := Some 10, gemini_api_key := Some ''k'',
                             last_post_date := Some ''20240101''\<rparr>)],
      [Spawn 1 10 ''k'' NoMention, Mark 1 ''20240101'', SaveFile])"
  by (simp add: tick_def evaluate_def py_int_def mention_text_def save_guild_config_def
      default_cfg_def Let_def)

lemma tick_example_again:
  "tick \<lparr>today_str = ''20240101'', now_hour = 8, now_minute = 0,
         get_channel = (\<lambda>ch. True), save_goes = (\<lambda>g. Saved)\<rparr>
     [(1, default_cfg\<lparr>channel_id := Some 10, gemini_api_key := Some ''k'',
                       last_post_date := Some ''20240101''\<rparr>)] d
   = (None,
      [(1, default_cfg\<lparr>channel_id := Some 10, gemini_api_key := Some ''k'',
                       last_post_date := Some ''20240101''\<rparr>)],
      d, [])"
  by (simp add: tick_def evaluate_def default_cfg_def)

lemma run_example:
  "snd (run [Tick \<lparr>today_str = ''20240101'', now_hour = 8, now_minute = 0,
                  get_channel = (\<lambda>ch. True), save_goes = (\<lambda>g. Saved)\<rparr>,
             Tick \<lparr>today_str = ''20240101'', now_hour = 8, now_minute = 0,
                  get_channel = (\<lambda>ch. True), save_goes = (\<lambda>g. Saved)\<rparr>]
         \<lparr>guild_settings = [(1, default_cfg\<lparr>channel_id := Some 10, gemini_api_key := Some ''k''\<rparr>)],
          disk = NoFile, stopped = None\<rparr>)
   = [Spawn 1 10 ''k'' NoMention, Mark 1 ''20240101'', SaveFile, SleepSec 30, SleepSec 30]"
  by (simp add: tick_example tick_example_again)

section \<open>At most one scheduled dispatch per guild and day\<close>

text \<open>
  Without these conditions the scheduler can dispatch a guild twice for one day. The save
  of the marker fails and the failure is swallowed; the process is started again within
  the minute and reads the file, which has no marker: the next tick dispatches guild 1
  again for the same day. And if the clock returns to a day it has left, the marker then
  holds the other day, and the guild is dispatched again.
\<close>

theorem dispatched_again_after_restart:
  "marks (snd (run [Tick \<lparr>today_str = ''20240101'', now_hour = 8, now_minute = 0,
                         get_channel = (\<lambda>ch. True), save_goes = (\<lambda>g. OpenFails)\<rparr>]
        \<lparr>guild_settings = [(1, default_cfg\<lparr>channel_id := Some 10, gemini_api_key := Some ''k''\<rparr>)],
         disk = File [(1, default_cfg\<lparr>channel_id := Some 10, gemini_api_key := Some ''k''\<rparr>)],
         stopped = None\<rparr>))
     = [(1, ''20240101'')]
   \<and> restart (fst (run [Tick \<lparr>today_str = ''20240101'', now_hour = 8, now_minute = 0,
                         get_channel = (\<lambda>ch. True), save_goes = (\<lambda>g. OpenFails)\<rparr>]
        \<lparr>guild_settings = [(1, default_cfg\<lparr>channel_id := Some 10, gemini_api_key := Some ''k''\<rparr>)],
         disk = File [(1, default_cfg\<lparr>channel_id := Some 10, gemini_api_key := Some ''k''\<rparr>)],
         stopped = None\<rparr>))
     = \<lparr>guild_settings = [(1, default_cfg\<lparr>channel_id := Some 10, gemini_api_key := Some ''k''\<rparr>)],
        disk = File [(1, default_cfg\<lparr>channel_id := Some 10, gemini_api_key := Some ''k''\<rparr>)],
        stopped = None\<rparr>
   \<and> marks (snd (run [Tick \<lparr>today_str = ''20240101'', now_hour = 8, now_minute = 0,
                         get_channel = (\<lambda>ch. True), save_goes = (\<lambda>g. Saved)\<rparr>]
        (restart (fst (run [Tick \<lparr>today_str = ''20240101'', now_hour = 8, now_minute = 0,
                         get_channel = (\<lambda>ch. True), save_goes = (\<lambda>g. OpenFails)\<rparr>]
          \<lparr>guild_settings = [(1, default_cfg\<lparr>channel_id := Some 10, gemini_api_key := Some ''k''\<rparr>)],
           disk = File [(1, default_cfg\<lparr>channel_id := Some 10, gemini_api_key := Some ''k''\<rparr>)],
           stopped = None\<rparr>)))))
     = [(1, ''20240101'')]
   \<and> marks (snd (run [Tick \<lparr>today_str = ''20240101'', now_hour = 8, now_minute = 0,
                         get_channel = (\<lambda>ch. True), save_goes = (\<lambda>g. Saved)\<rparr>,
                    Tick \<lparr>today_str = ''20240102'', now_hour = 8, now_minute = 0,
                         get_channel = (\<lambda>ch. True), save_goes = (\<lambda>g. Saved)\<rparr>,
                    Tick \<lparr>today_str = ''20240101'', now_hour = 8, now_minute = 0,
                         get_channel = (\<lambda>ch. True), save_goes = (\<lambda>g. Saved)\<rparr>]
        \<lparr>guild_settings = [(1, default_cfg\<lparr>channel_id := Some 10, gemini_api_key := Some ''k''\<rparr>)],
         disk = NoFile, stopped = None\<rparr>))
     = [(1, ''20240101''), (1, ''20240102''), (1, ''20240101'')]"
  by (simp add: tick_def evaluate_def py_int_def mention_text_def save_guild_config_def
      default_cfg_def Let_def restart_def load_guild_config_def)

text \<open>
  C1, as the code has it. Within one run of the process, a run of ticks and commands
  that starts from settings with one entry per guild, and with a clock that does not
  return to a day it has left (the ticks of day \<open>D\<close> come in one block), the scheduler
  writes the marker \<open>D\<close> for guild \<open>T\<close> at most once; and the marker writes of a run are
  exactly the dispatch tasks it creates, guild by guild in the same order. So the
  scheduler creates at most one dispatch task for \<open>(T, D)\<close>, however long a dispatch
  takes: the tick writes the marker itself, and no command writes it.
\<close>

theorem scheduled_dispatch_once_per_day:
  assumes "distinct (map fst (guild_settings s))" and "one_block D (tick_days evs)"
  shows "count_list (marks (snd (run evs s))) (T, D) \<le> 1
         \<and> map fst (marks (snd (run evs s))) = spawned (snd (run evs s))"
  using run_once_per_day [OF assms] run_marks_spawned [of evs s] by simp

theorem scheduled_dispatch_once_per_day_witness:
  "count_list
     (marks (snd (run [Tick \<lparr>today_str = ''20240101'', now_hour = 8, now_minute = 0,
                  get_channel = (\<lambda>ch. True), save_goes = (\<lambda>g. Saved)\<rparr>,
             Tick \<lparr>today_str = ''20240101'', now_hour = 8, now_minute = 0,
                  get_channel = (\<lambda>ch. True), save_goes = (\<lambda>g. Saved)\<rparr>]
         \<lparr>guild_settings = [(1, default_cfg\<lparr>channel_id := Some 10, gemini_api_key := Some ''k''\<rparr>)],
          disk = NoFile, stopped = None\<rparr>))) (1, ''20240101'') \<le> 1
   \<and> spawned (snd (run [Tick \<lparr>today_str = ''20240101'', now_hour = 8, now_minute = 0,
                  get_channel = (\<lambda>ch. True), save_goes = (\<lambda>g. Saved)\<rparr>,
             Tick \<lparr>today_str = ''20240101'', now_hour = 8, now_minute = 0,
                  get_channel = (\<lambda>ch. True), save_goes = (\<lambda>g. Saved)\<rparr>]
         \<lparr>guild_settings = [(1, default_cfg\<lparr>channel_id := Some 10, gemini_api_key := Some ''k''\<rparr>)],
          disk = NoFile, stopped = None\<rparr>)) = [1]"
proof -
  let ?t = "\<lparr>today_str = ''20240101'', now_hour = 8, now_minute = 0,
                  get_channel = (\<lambda>ch::int. True), save_goes = (\<lambda>g::int. Saved)\<rparr>"
  let ?s = "\<lparr>guild_settings = [(1, default_cfg\<lparr>channel_id := Some 10, gemini_api_key := Some ''k''\<rparr>)],
          disk = NoFile, stopped = None\<rparr>"
  have h1: "distinct (map fst (guild_settings ?s))" by simp
  have h2: "one_block ''20240101'' (tick_days [Tick ?t, Tick ?t])" by simp
  from scheduled_dispatch_once_per_day [OF h1 h2, of 1]
  have "count_list (marks (snd (run [Tick ?t, Tick ?t] ?s))) (1, ''20240101'') \<le> 1" by simp
  moreover have "spawned (snd (run [Tick ?t, Tick ?t] ?s)) = [1]"
    by (simp only: run_example spawned_simps)
  ultimately show ?thesis by simp
qed

section \<open>The order of task creation, marker and save\<close>

lemma save_guild_config_effect:
  "snd (save_guild_config outcome gs d) = [save_effect outcome]"
  by (cases outcome) (simp_all add: save_guild_config_def save_effect_def)

lemma save_guild_config_Saved: "fst (save_guild_config Saved gs d) = File gs"
  by (simp add: save_guild_config_def)

text \<open>
  Every task the tick creates is followed at once by the marker write and the save
  attempt of its guild.
\<close>

lemma tick_items_order:
  "tick_items t seen todo d = (x, gs', d', es) \<Longrightarrow> Spawn g ch k m \<in> set es \<Longrightarrow>
   \<exists>pre post. es = pre @ Spawn g ch k m # Mark g (today_str t) # save_effect (save_goes t g) # post"
proof (induction todo arbitrary: seen d x gs' d' es)
  case Nil
  then show ?case by simp
next
  case (Cons a todo)
  obtain g0 c where a: "a = (g0, c)" by (cases a)
  show ?case
  proof (cases "evaluate t c")
    case Skip
    with Cons.prems a have "tick_items t (seen @ [(g0, c)]) todo d = (x, gs', d', es)" by simp
    from Cons.IH [OF this Cons.prems(2)] show ?thesis .
  next
    case (Raise e)
    with Cons.prems a show ?thesis by auto
  next
    case (Fire ch0 k0 m0)
    let ?c = "c\<lparr>last_post_date := Some (today_str t)\<rparr>"
    obtain d1 es1 where s: "save_guild_config (save_goes t g0) (seen @ (g0, ?c) # todo) d = (d1, es1)"
      by (cases "save_guild_config (save_goes t g0) (seen @ (g0, ?c) # todo) d")
    obtain x2 gs2 d2 es2 where r: "tick_items t (seen @ [(g0, ?c)]) todo d1 = (x2, gs2, d2, es2)"
      by (cases "tick_items t (seen @ [(g0, ?c)]) todo d1")
    from s save_guild_config_effect [of "save_goes t g0" "seen @ (g0, ?c) # todo" d]
    have es1: "es1 = [save_effect (save_goes t g0)]" by simp
    from Cons.prems a Fire s r es1
    have eq: "es = Spawn g0 ch0 k0 m0 # Mark g0 (today_str t) # save_effect (save_goes t g0) # es2"
      by simp
    show ?thesis
    proof (cases "Spawn g ch k m = Spawn g0 ch0 k0 m0")
      case True
      with eq have "es = [] @ Spawn g ch k m # Mark g (today_str t) # save_effect (save_goes t g) # es2"
        by simp
      then show ?thesis by blast
    next
      case False
      with Cons.prems(2) eq have "Spawn g ch k m \<in> set es2"
        by (auto simp: save_effect_def split: save_outcome.splits)
      from Cons.IH [OF r this] obtain pre post where
        "es2 = pre @ Spawn g ch k m # Mark g (today_str t) # save_effect (save_goes t g) # post"
        by blast
      with eq have "es = (Spawn g0 ch0 k0 m0 # Mark g0 (today_str t) # save_effect (save_goes t g0) # pre)
          @ Spawn g ch k m # Mark g (today_str t) # save_effect (save_goes t g) # post"
        by simp
      then show ?thesis by blast
    qed
  qed
qed

text \<open>The tick itself never sleeps: its only effects are tasks, markers and saves.\<close>

lemma tick_items_no_sleep:
  "tick_items t seen todo d = (x, gs', d', es) \<Longrightarrow> SleepSec n \<notin> set es"
proof (induction todo arbitrary: seen d x gs' d' es)
  case Nil
  then show ?case by simp
next
  case (Cons a todo)
  obtain g0 c where a: "a = (g0, c)" by (cases a)
  show ?case
  proof (cases "evaluate t c")
    case Skip
    with Cons.prems a have "tick_items t (seen @ [(g0, c)]) todo d = (x, gs', d', es)" by simp
    from Cons.IH [OF this] show ?thesis .
  next
    case (Raise e)
    with Cons.prems a show ?thesis by auto
  next
    case (Fire ch0 k0 m0)
    let ?c = "c\<lparr>last_post_date := Some (today_str t)\<rparr>"
    obtain d1 es1 where s: "save_guild_config (save_goes t g0) (seen @ (g0, ?c) # todo) d = (d1, es1)"
      by (cases "save_guild_config (save_goes t g0) (seen @ (g0, ?c) # todo) d")
    obtain x2 gs2 d2 es2 where r: "tick_items t (seen @ [(g0, ?c)]) todo d1 = (x2, gs2, d2, es2)"
      by (cases "tick_items t (seen @ [(g0, ?c)]) todo d1")
    from s save_guild_config_effect [of "save_goes t g0" "seen @ (g0, ?c) # todo" d]
    have es1: "es1 = [save_effect (save_goes t g0)]" by simp
    from Cons.prems a Fire s r es1
    have eq: "es = Spawn g0 ch0 k0 m0 # Mark g0 (today_str t) # save_effect (save_goes t g0) # es2"
      by simp
    from Cons.IH [OF r] eq show ?thesis
      by (auto simp: save_effect_def split: save_outcome.splits)
  qed
qed

lemma no_spawns_no_change: "tick_spawns t todo = [] \<Longrightarrow> after_tick t todo = todo"
proof (induction todo)
  case Nil
  then show ?case by simp
next
  case (Cons b todo)
  obtain g1 c1 where b: "b = (g1, c1)" by (cases b)
  from Cons b show ?case by (cases "evaluate t c1") auto
qed

lemma Spawn_in_spawned: "Spawn g ch k m \<in> set es \<Longrightarrow> g \<in> set (spawned es)"
  by (induction es) (auto simp: spawned_def)

text \<open>
  When every save succeeds, the file after a tick that created a task holds the settings
  the tick left.
\<close>

lemma tick_items_file:
  "tick_items t seen todo d = (x, gs', d', es) \<Longrightarrow> (\<And>g. save_goes t g = Saved) \<Longrightarrow>
   (spawned es = [] \<and> d' = d) \<or> d' = File gs'"
proof (induction todo arbitrary: seen d x gs' d' es)
  case Nil
  then show ?case by simp
next
  case (Cons a todo)
  obtain g0 c where a: "a = (g0, c)" by (cases a)
  show ?case
  proof (cases "evaluate t c")
    case Skip
    with Cons.prems a have "tick_items t (seen @ [(g0, c)]) todo d = (x, gs', d', es)" by simp
    from Cons.IH [OF this Cons.prems(2)] show ?thesis .
  next
    case (Raise e)
    with Cons.prems a show ?thesis by auto
  next
    case (Fire ch0 k0 m0)
    let ?c = "c\<lparr>last_post_date := Some (today_str t)\<rparr>"
    let ?snap = "seen @ (g0, ?c) # todo"
    obtain x2 gs2 d2 es2 where r: "tick_items t (seen @ [(g0, ?c)]) todo (File ?snap) = (x2, gs2, d2, es2)"
      by (cases "tick_items t (seen @ [(g0, ?c)]) todo (File ?snap)")
    from Cons.prems a Fire r
    have eq: "gs' = gs2" "d' = d2"
      by (simp_all add: save_guild_config_def)
    from tick_items_view [OF r] have v: "gs2 = (seen @ [(g0, ?c)]) @ after_tick t todo"
      "spawned es2 = tick_spawns t todo"
      by simp_all
    from Cons.IH [OF r Cons.prems(2)]
    have "(spawned es2 = [] \<and> d2 = File ?snap) \<or> d2 = File gs2" .
    then show ?thesis
    proof
      assume n: "spawned es2 = [] \<and> d2 = File ?snap"
      from n v(2) have "after_tick t todo = todo" by (simp add: no_spawns_no_change)
      with v n eq show ?thesis by simp
    next
      assume "d2 = File gs2"
      with eq show ?thesis by simp
    qed
  qed
qed

text \<open>
  The tick of \<open>tick_example\<close> creates the task of guild 1 before it writes the marker and
  before it saves.
\<close>

theorem marker_written_after_spawn:
  "comes_before (Spawn 1 10 ''k'' NoMention) (Mark 1 ''20240101'')
     (snd (snd (snd (tick \<lparr>today_str = ''20240101'', now_hour = 8, now_minute = 0,
         get_channel = (\<lambda>ch. True), save_goes = (\<lambda>g. Saved)\<rparr>
       [(1, default_cfg\<lparr>channel_id := Some 10, gemini_api_key := Some ''k''\<rparr>)] NoFile))))
   \<and> comes_before (Spawn 1 10 ''k'' NoMention) SaveFile
     (snd (snd (snd (tick \<lparr>today_str = ''20240101'', now_hour = 8, now_minute = 0,
         get_channel = (\<lambda>ch. True), save_goes = (\<lambda>g. Saved)\<rparr>
       [(1, default_cfg\<lparr>channel_id := Some 10, gemini_api_key := Some ''k''\<rparr>)] NoFile))))
   \<and> \<not> comes_before (Mark 1 ''20240101'') (Spawn 1 10 ''k'' NoMention)
     (snd (snd (snd (tick \<lparr>today_str = ''20240101'', now_hour = 8, now_minute = 0,
         get_channel = (\<lambda>ch. True), save_goes = (\<lambda>g. Saved)\<rparr>
       [(1, default_cfg\<lparr>channel_id := Some 10, gemini_api_key := Some ''k''\<rparr>)] NoFile))))
   \<and> \<not> comes_before SaveFile (Spawn 1 10 ''k'' NoMention)
     (snd (snd (snd (tick \<lparr>today_str = ''20240101'', now_hour = 8, now_minute = 0,
         get_channel = (\<lambda>ch. True), save_goes = (\<lambda>g. Saved)\<rparr>
       [(1, default_cfg\<lparr>channel_id := Some 10, gemini_api_key := Some ''k''\<rparr>)] NoFile))))"
  by (simp add: tick_example)

text \<open>
  C2, as the code has it. In every iteration of the scheduler loop, each dispatch task
  the tick creates is followed at once, with nothing in between, by the write of today's
  marker for that guild and by the save attempt; all of it comes before the iteration's
  sleep, the first point at which a created task can run. When every save of the tick
  succeeds and the tick created a task, the file holds the settings the tick left; and
  in settings with one entry per guild, the guild holds today's marker after the tick.
\<close>

theorem spawn_then_mark_then_save:
  assumes "step (Tick t) s = (s', es)" and "Spawn g ch k m \<in> set es"
  shows "(\<exists>pre post. es = pre @ Spawn g ch k m # Mark g (today_str t)
                          # save_effect (save_goes t g) # post
            \<and> (\<forall>n. SleepSec n \<notin> set pre))
         \<and> ((\<forall>g. save_goes t g = Saved) \<longrightarrow> disk s' = File (guild_settings s'))
         \<and> (distinct (map fst (guild_settings s))
              \<longrightarrow> last_post_date_of (guild_settings s') g = Some (today_str t))"
proof -
  from assms have ns: "stopped s = None" by (cases "stopped s") auto
  obtain x gs' d' es' where r: "tick_items t [] (guild_settings s) (disk s) = (x, gs', d', es')"
    by (cases "tick_items t [] (guild_settings s) (disk s)")
  from assms(1) ns r have es: "es = es' \<or> es = es' @ [SleepSec 30]"
    and st: "guild_settings s' = gs'" "disk s' = d'"
    by (cases x; auto simp: tick_def)+
  from es assms(2) have mem: "Spawn g ch k m \<in> set es'" by auto
  from tick_items_order [OF r mem] obtain pre post where
    p: "es' = pre @ Spawn g ch k m # Mark g (today_str t) # save_effect (save_goes t g) # post"
    by blast
  from tick_items_no_sleep [OF r] p have q: "\<forall>n. SleepSec n \<notin> set pre" by auto
  from es p have "es = pre @ Spawn g ch k m # Mark g (today_str t) # save_effect (save_goes t g) # post
      \<or> es = pre @ Spawn g ch k m # Mark g (today_str t) # save_effect (save_goes t g) # (post @ [SleepSec 30])"
    by auto
  with q have first: "\<exists>pre post. es = pre @ Spawn g ch k m # Mark g (today_str t)
                          # save_effect (save_goes t g) # post
            \<and> (\<forall>n. SleepSec n \<notin> set pre)"
    by blast
  have second: "(\<forall>g. save_goes t g = Saved) \<longrightarrow> disk s' = File (guild_settings s')"
  proof
    assume a: "\<forall>g. save_goes t g = Saved"
    from Spawn_in_spawned [OF mem] have "spawned es' \<noteq> []" by auto
    with tick_items_file [OF r] a st show "disk s' = File (guild_settings s')" by auto
  qed
  have third: "distinct (map fst (guild_settings s))
              \<longrightarrow> last_post_date_of (guild_settings s') g = Some (today_str t)"
    using step_Tick [OF assms(1), of g] Spawn_in_spawned [OF assms(2)] by simp
  from first second third show ?thesis by blast
qed

theorem spawn_then_mark_then_save_witness:
  "(\<exists>pre post. [Spawn 1 10 ''k'' NoMention, Mark 1 ''20240101'', SaveFile, SleepSec 30]
       = pre @ Spawn 1 10 ''k'' NoMention # Mark 1 ''20240101'' # save_effect Saved # post
       \<and> (\<forall>n. SleepSec n \<notin> set pre))
   \<and> File [(1, default_cfg\<lparr>channel_id := Some 10, gemini_api_key := Some ''k'',
                           last_post_date := Some ''20240101''\<rparr>)]
     = File [(1, default_cfg\<lparr>channel_id := Some 10, gemini_api_key := Some ''k'',
                             last_post_date := Some ''20240101''\<rparr>)]
   \<and> last_post_date_of
       [(1, default_cfg\<lparr>channel_id := Some 10, gemini_api_key := Some ''k'',
                         last_post_date := Some ''20240101''\<rparr>)] 1
     = Some ''20240101''"
proof -
  let ?t = "\<lparr>today_str = ''20240101'', now_hour = 8, now_minute = 0,
                  get_channel = (\<lambda>ch::int. True), save_goes = (\<lambda>g::int. Saved)\<rparr>"
  let ?s = "\<lparr>guild_settings = [(1, default_cfg\<lparr>channel_id := Some 10, gemini_api_key := Some ''k''\<rparr>)],
          disk = NoFile, stopped = None\<rparr>"
  let ?gs = "[(1::int, default_cfg\<lparr>channel_id := Some 10, gemini_api_key := Some ''k'',
                           last_post_date := Some ''20240101''\<rparr>)]"
  let ?es = "[Spawn 1 10 ''k'' NoMention, Mark 1 ''20240101'', SaveFile, SleepSec 30]"
  have h1: "step (Tick ?t) ?s = (\<lparr>guild_settings = ?gs, disk = File ?gs, stopped = None\<rparr>, ?es)"
    by (simp add: tick_example)
  have h2: "Spawn 1 10 ''k'' NoMention \<in> set ?es" by simp
  have h3: "\<forall>g. save_goes ?t g = Saved" by simp
  have h4: "distinct (map fst (guild_settings ?s))" by simp
  from spawn_then_mark_then_save [OF h1 h2] h3 h4 show ?thesis by simp
qed

section \<open>Guilds without destination or credential\<close>

text \<open>
  The tick skips a guild whose \<^verbatim>\<open>channel_id\<close> or \<^verbatim>\<open>gemini_api_key\<close> is \<^verbatim>\<open>None\<close>; the
  guild created by \<open>get_or_create_guild_settings\<close> has no channel and is skipped.
\<close>

lemma evaluate_unconfigured:
  "channel_id c = None \<or> gemini_api_key c = None \<Longrightarrow> evaluate t c = Skip"
  by (auto simp: evaluate_def split: option.splits)

lemma evaluate_default: "evaluate t default_cfg = Skip"
  by (simp add: evaluate_def default_cfg_def)

text \<open>
  C3 fails on the code. The key a guild is created with is the empty string, not
  \<^verbatim>\<open>None\<close>, and the tick tests \<^verbatim>\<open>gemini_key is None\<close>: a guild that has set a channel
  and no key is dispatched at 08:00, with the empty key, and marked.
\<close>

theorem empty_key_is_dispatched:
  "tick \<lparr>today_str = ''20240101'', now_hour = 8, now_minute = 0,
         get_channel = (\<lambda>ch. True), save_goes = (\<lambda>g. Saved)\<rparr>
     (fst (handle (Channel 10) Saved (\<lambda>ch. True) 1 [] NoFile)) NoFile
   = (None,
      [(1, default_cfg\<lparr>channel_id := Some 10, last_post_date := Some ''20240101''\<rparr>)],
      File [(1, default_cfg\<lparr>channel_id := Some 10, last_post_date := Some ''20240101''\<rparr>)],
      [Spawn 1 10 [] NoMention, Mark 1 ''20240101'', SaveFile])
   \<and> gemini_api_key default_cfg = Some []"
  by (simp add: tick_def evaluate_def py_int_def mention_text_def save_guild_config_def
      default_cfg_def Let_def get_or_create_guild_settings_def update_cfg_def)

section \<open>An exception inside a tick\<close>

lemma tick_spawns_raise:
  "evaluate t c = Raise e \<Longrightarrow> tick_spawns t (pre @ (g, c) # post) = tick_spawns t pre"
proof (induction pre)
  case Nil
  then show ?case by simp
next
  case (Cons a pre)
  obtain g0 c0 where a: "a = (g0, c0)" by (cases a)
  from Cons a show ?case by (cases "evaluate t c0") auto
qed

lemma after_tick_raise:
  "evaluate t c = Raise e \<Longrightarrow>
   after_tick t (pre @ (g, c) # post) = after_tick t pre @ (g, c) # post"
proof (induction pre)
  case Nil
  then show ?case by simp
next
  case (Cons a pre)
  obtain g0 c0 where a: "a = (g0, c0)" by (cases a)
  from Cons a show ?case by (cases "evaluate t c0") auto
qed

lemma tick_items_raises:
  "evaluate t c = Raise e \<Longrightarrow> \<exists>e'. fst (tick_items t seen (pre @ (g, c) # post) d) = Some e'"
proof (induction pre arbitrary: seen d)
  case Nil
  then show ?case by simp
next
  case (Cons a pre)
  obtain g0 c0 where a: "a = (g0, c0)" by (cases a)
  show ?case
  proof (cases "evaluate t c0")
    case Skip
    with Cons a show ?thesis by simp
  next
    case (Raise e0)
    with a show ?thesis by simp
  next
    case (Fire ch0 k0 m0)
    let ?c = "c0\<lparr>last_post_date := Some (today_str t)\<rparr>"
    obtain d1 es1 where s: "save_guild_config (save_goes t g0)
        (seen @ (g0, ?c) # pre @ (g, c) # post) d = (d1, es1)"
      by (cases "save_guild_config (save_goes t g0) (seen @ (g0, ?c) # pre @ (g, c) # post) d")
    from Cons.IH [OF Cons.prems, of "seen @ [(g0, ?c)]" d1] obtain e' where
      "fst (tick_items t (seen @ [(g0, ?c)]) (pre @ (g, c) # post) d1) = Some e'" by blast
    with a Fire s show ?thesis by (simp add: split_beta Let_def)
  qed
qed

text \<open>Once the loop has ended, commands still run, and no task is created any more.\<close>

lemma stopped_stays:
  "stopped s = Some e \<Longrightarrow> stopped (fst (run evs s)) = Some e \<and> spawned (snd (run evs s)) = []"
proof (induction evs arbitrary: s)
  case Nil
  then show ?case by simp
next
  case (Cons ev evs)
  obtain s' es where st: "step ev s = (s', es)" by (cases "step ev s")
  obtain s'' es' where r: "run evs s' = (s'', es')" by (cases "run evs s'")
  have a: "stopped s' = Some e \<and> spawned es = []"
  proof (cases ev)
    case (Tick t)
    with st Cons.prems show ?thesis by auto
  next
    case (Command g cmd outcome chans)
    with step_Command [of g cmd outcome chans s s' es] st have "spawned es = []" by simp
    moreover from Command st Cons.prems have "stopped s' = Some e"
      by (auto split: prod.splits)
    ultimately show ?thesis by simp
  qed
  with Cons.IH [of s'] r have "stopped s'' = Some e \<and> spawned es' = []" by simp
  with a run_Cons [OF st r] show ?case by simp
qed

text \<open>
  Guild 1 has no \<^verbatim>\<open>post_hour\<close>, guild 2 is due at 08:00. The tick at 08:00 raises at
  guild 1: guild 2 is not dispatched, in this tick or in the next, though a tick over
  guild 2 alone dispatches it.
\<close>

theorem missing_post_hour_stops_scheduler:
  "tick \<lparr>today_str = ''20240101'', now_hour = 8, now_minute = 0,
         get_channel = (\<lambda>ch. True), save_goes = (\<lambda>g. Saved)\<rparr>
     [(1, default_cfg\<lparr>channel_id := Some 10, gemini_api_key := Some ''k'', post_hour := None\<rparr>),
      (2, default_cfg\<lparr>channel_id := Some 20, gemini_api_key := Some ''k''\<rparr>)] NoFile
   = (Some TypeError,
      [(1, default_cfg\<lparr>channel_id := Some 10, gemini_api_key := Some ''k'', post_hour := None\<rparr>),
       (2, default_cfg\<lparr>channel_id := Some 20, gemini_api_key := Some ''k''\<rparr>)],
      NoFile, [])
   \<and> run [Tick \<lparr>today_str = ''20240101'', now_hour = 8, now_minute = 0,
                 get_channel = (\<lambda>ch. True), save_goes = (\<lambda>g. Saved)\<rparr>,
           Tick \<lparr>today_str = ''20240101'', now_hour = 8, now_minute = 0,
                 get_channel = (\<lambda>ch. True), save_goes = (\<lambda>g. Saved)\<rparr>]
       \<lparr>guild_settings =
          [(1, default_cfg\<lparr>channel_id := Some 10, gemini_api_key := Some ''k'', post_hour := None\<rparr>),
           (2, default_cfg\<lparr>channel_id := Some 20, gemini_api_key := Some ''k''\<rparr>)],
        disk = NoFile, stopped = None\<rparr>
     = (\<lparr>guild_settings =
          [(1, default_cfg\<lparr>channel_id := Some 10, gemini_api_key := Some ''k'', post_hour := None\<rparr>),
           (2, default_cfg\<lparr>channel_id := Some 20, gemini_api_key := Some ''k''\<rparr>)],
         disk = NoFile, stopped = Some TypeError\<rparr>, [])
   \<and> spawned (snd (snd (snd (tick \<lparr>today_str = ''20240101'', now_hour = 8, now_minute = 0,
         get_channel = (\<lambda>ch. True), save_goes = (\<lambda>g. Saved)\<rparr>
       [(2, default_cfg\<lparr>channel_id := Some 20, gemini_api_key := Some ''k''\<rparr>)] NoFile)))) = [2]"
  by (simp add: tick_def evaluate_def py_int_def mention_text_def save_guild_config_def
      default_cfg_def Let_def)

text \<open>
  C4, as the code has it. A guild the tick skips does not stop the tick: the entries after
  it are evaluated as if it were not there. An exception raised while a guild is
  evaluated is not caught: the tick ends with it, only guilds before that one are
  dispatched, the entries from that guild on stay as they were, the loop ends, and no
  later iteration creates a task.
\<close>

theorem exception_ends_tick_and_loop:
  "(evaluate t c = Skip \<longrightarrow>
      tick_items t seen ((g, c) # post) d = tick_items t (seen @ [(g, c)]) post d)
   \<and> (evaluate t c = Raise e \<and> stopped s = None \<and> guild_settings s = pre @ (g, c) # post \<longrightarrow>
        (\<exists>e' pre'. stopped (fst (step (Tick t) s)) = Some e'
           \<and> guild_settings (fst (step (Tick t) s)) = pre' @ (g, c) # post
           \<and> map fst pre' = map fst pre
           \<and> set (spawned (snd (step (Tick t) s))) \<subseteq> fst ` set pre
           \<and> spawned (snd (run evs (fst (step (Tick t) s)))) = []))"
proof (intro conjI impI)
  assume "evaluate t c = Skip"
  then show "tick_items t seen ((g, c) # post) d = tick_items t (seen @ [(g, c)]) post d"
    by simp
next
  assume a: "evaluate t c = Raise e \<and> stopped s = None \<and> guild_settings s = pre @ (g, c) # post"
  obtain x gs' d' es where r: "tick_items t [] (guild_settings s) (disk s) = (x, gs', d', es)"
    by (cases "tick_items t [] (guild_settings s) (disk s)")
  from a tick_items_raises [of t c e "[]" pre g post "disk s"] r obtain e' where x: "x = Some e'"
    by auto
  from tick_items_view [OF r] a
  have v: "gs' = after_tick t pre @ (g, c) # post" "spawned es = tick_spawns t pre"
    by (simp_all add: after_tick_raise tick_spawns_raise)
  from a r x have st: "step (Tick t) s = (s\<lparr>guild_settings := gs', disk := d', stopped := Some e'\<rparr>, es)"
    by (simp add: tick_def)
  from stopped_stays [of "s\<lparr>guild_settings := gs', disk := d', stopped := Some e'\<rparr>" e' evs]
  have after: "spawned (snd (run evs (s\<lparr>guild_settings := gs', disk := d', stopped := Some e'\<rparr>))) = []"
    by simp
  from tick_spawns_keys [of t pre] v have sub: "set (spawned es) \<subseteq> fst ` set pre" by simp
  have "stopped (fst (step (Tick t) s)) = Some e'
           \<and> guild_settings (fst (step (Tick t) s)) = after_tick t pre @ (g, c) # post
           \<and> map fst (after_tick t pre) = map fst pre
           \<and> set (spawned (snd (step (Tick t) s))) \<subseteq> fst ` set pre
           \<and> spawned (snd (run evs (fst (step (Tick t) s)))) = []"
    using st v sub after by simp
  then show "\<exists>e' pre'. stopped (fst (step (Tick t) s)) = Some e'
           \<and> guild_settings (fst (step (Tick t) s)) = pre' @ (g, c) # post
           \<and> map fst pre' = map fst pre
           \<and> set (spawned (snd (step (Tick t) s))) \<subseteq> fst ` set pre
           \<and> spawned (snd (run evs (fst (step (Tick t) s)))) = []"
    by blast
qed

theorem exception_ends_tick_and_loop_witness:
  "tick_items \<lparr>today_str = ''20240101'', now_hour = 8, now_minute = 0,
         get_channel = (\<lambda>ch. True), save_goes = (\<lambda>g. Saved)\<rparr> [] [(3, default_cfg)] NoFile
   = tick_items \<lparr>today_str = ''20240101'', now_hour = 8, now_minute = 0,
         get_channel = (\<lambda>ch. True), save_goes = (\<lambda>g. Saved)\<rparr> [(3, default_cfg)] [] NoFile
   \<and> (\<exists>e' pre'.
        stopped (fst (step (Tick \<lparr>today_str = ''20240101'', now_hour = 8, now_minute = 0,
                 get_channel = (\<lambda>ch. True), save_goes = (\<lambda>g. Saved)\<rparr>)
          \<lparr>guild_settings =
             [(1, default_cfg\<lparr>channel_id := Some 10, gemini_api_key := Some ''k'', post_hour := None\<rparr>),
              (2, default_cfg\<lparr>channel_id := Some 20, gemini_api_key := Some ''k''\<rparr>)],
           disk = NoFile, stopped = None\<rparr>)) = Some e'
        \<and> guild_settings (fst (step (Tick \<lparr>today_str = ''20240101'', now_hour = 8, now_minute = 0,
                 get_channel = (\<lambda>ch. True), save_goes = (\<lambda>g. Saved)\<rparr>)
          \<lparr>guild_settings =
             [(1, default_cfg\<lparr>channel_id := Some 10, gemini_api_key := Some ''k'', post_hour := None\<rparr>),
              (2, default_cfg\<lparr>channel_id := Some 20, gemini_api_key := Some ''k''\<rparr>)],
           disk = NoFile, stopped = None\<rparr>))
          = pre' @ (1, default_cfg\<lparr>channel_id := Some 10, gemini_api_key := Some ''k'', post_hour := None\<rparr>)
              # [(2, default_cfg\<lparr>channel_id := Some 20, gemini_api_key := Some ''k''\<rparr>)]
        \<and> pre' = [])"
proof -
  let ?t = "\<lparr>today_str = ''20240101'', now_hour = 8, now_minute = 0,
                  get_channel = (\<lambda>ch::int. True), save_goes = (\<lambda>g::int. Saved)\<rparr>"
  let ?c1 = "default_cfg\<lparr>channel_id := Some 10, gemini_api_key := Some ''k'', post_hour := None\<rparr>"
  let ?c2 = "default_cfg\<lparr>channel_id := Some 20, gemini_api_key := Some ''k''\<rparr>"
  let ?s = "\<lparr>guild_settings = [(1, ?c1), (2, ?c2)], disk = NoFile, stopped = None\<rparr>"
  have h1: "evaluate ?t default_cfg = Skip" by (rule evaluate_default)
  from exception_ends_tick_and_loop [where t = ?t and c = default_cfg and seen = "[]" and g = 3
      and post = "[]" and d = NoFile] h1
  have r1: "tick_items ?t [] [(3, default_cfg)] NoFile = tick_items ?t [(3, default_cfg)] [] NoFile"
    by simp
  have h2: "evaluate ?t ?c1 = Raise TypeError \<and> stopped ?s = None
            \<and> guild_settings ?s = [] @ (1, ?c1) # [(2, ?c2)]"
    by (simp add: evaluate_def py_int_def default_cfg_def)
  from exception_ends_tick_and_loop [where t = ?t and c = ?c1 and e = TypeError and s = ?s
      and pre = "[]" and g = 1 and post = "[(2, ?c2)]" and evs = "[]"] h2
  have r2: "\<exists>e' pre'. stopped (fst (step (Tick ?t) ?s)) = Some e'
        \<and> guild_settings (fst (step (Tick ?t) ?s)) = pre' @ (1, ?c1) # [(2, ?c2)]
        \<and> pre' = []"
    by auto
  from r1 r2 show ?thesis by blast
qed

section \<open>Saving the settings\<close>

text \<open>
  \<^verbatim>\<open>/ohaasa channel\<close> in a new guild while the file cannot be opened: the command answers
  as it does when the save succeeds, the settings in memory hold the channel, the file
  does not, and the only trace is the logged error. And \<^verbatim>\<open>/ohaasa config\<close>,
  \<^verbatim>\<open>/ohaasa test\<close> and a \<^verbatim>\<open>/ohaasa mention\<close> refused for its missing role, in a new
  guild, create the guild's entry without saving at all.
\<close>

theorem failed_save_is_swallowed:
  "handle (Channel 10) OpenFails (\<lambda>ch. True) 1 [] NoFile
     = ([(1, default_cfg\<lparr>channel_id := Some 10\<rparr>)], NoFile, [LogSaveError], Done)
   \<and> handle (Channel 10) Saved (\<lambda>ch. True) 1 [] NoFile
     = ([(1, default_cfg\<lparr>channel_id := Some 10\<rparr>)],
        File [(1, default_cfg\<lparr>channel_id := Some 10\<rparr>)], [SaveFile], Done)
   \<and> handle Config Saved (\<lambda>ch. True) 1 [] NoFile = ([(1, default_cfg)], NoFile, [], ConfigShown)
   \<and> handle Test Saved (\<lambda>ch. True) 1 [] NoFile = ([(1, default_cfg)], NoFile, [], ChannelNotSet)
   \<and> handle (Mention ''role'' None) Saved (\<lambda>ch. True) 1 [] NoFile
     = ([(1, default_cfg)], NoFile, [], RoleRequired)"
  by (simp add: get_or_create_guild_settings_def update_cfg_def save_guild_config_def Let_def
      default_cfg_def)

text \<open>A command that sets no field leaves the file alone, whatever it creates in memory.\<close>

lemma handle_without_save:
  "\<not> writes_field cmd \<Longrightarrow> handle cmd outcome chans g gs d = (gs', d', es, r) \<Longrightarrow>
   d' = d \<and> SaveFile \<notin> set es \<and> LogSaveError \<notin> set es"
  by (cases cmd) (auto simp: Let_def split: option.splits if_splits)

lemma handle_writes:
  assumes "writes_field cmd"
  shows "handle cmd outcome chans g gs d
     = (fst (handle cmd Saved chans g gs d),
        fst (save_guild_config outcome (fst (handle cmd Saved chans g gs d)) d),
        [save_effect outcome], Done)"
proof (cases cmd)
  case (Channel target)
  then show ?thesis by (simp add: split_beta Let_def save_guild_config_effect)
next
  case (Apikey api_key)
  then show ?thesis by (simp add: split_beta Let_def save_guild_config_effect)
next
  case (Time h m)
  then show ?thesis by (simp add: split_beta Let_def save_guild_config_effect)
next
  case (Mention mode role)
  with assms show ?thesis by (auto simp: split_beta Let_def save_guild_config_effect)
next
  case Config
  with assms show ?thesis by simp
next
  case Test
  with assms show ?thesis by simp
qed

lemma get_or_create_has: "\<exists>c. map_of (get_or_create_guild_settings g gs) g = Some c"
  by (auto simp: get_or_create_guild_settings_def map_add_def split: option.splits)

lemma handle_creates:
  "writes_field cmd \<Longrightarrow> map_of (fst (handle cmd outcome chans g gs d)) g \<noteq> None"
proof (cases cmd)
  case (Channel target)
  with get_or_create_has [of g gs] show ?thesis
    by (auto simp: split_beta Let_def map_of_update_cfg)
next
  case (Apikey api_key)
  with get_or_create_has [of g gs] show ?thesis
    by (auto simp: split_beta Let_def map_of_update_cfg)
next
  case (Time h m)
  with get_or_create_has [of g gs] show ?thesis
    by (auto simp: split_beta Let_def map_of_update_cfg)
next
  case (Mention mode role)
  with get_or_create_has [of g gs] show ?thesis
    by (auto simp: split_beta Let_def map_of_update_cfg)
next
  case Config
  assume "writes_field cmd"
  with Config show ?thesis by simp
next
  case Test
  assume "writes_field cmd"
  with Test show ?thesis by simp
qed

text \<open>
  C8, as the code has it. A command that sets a field of a guild's settings calls
  \<open>save_guild_config\<close> once, after the assignment and before it answers. How the save
  goes changes neither the answer, which is the success message, nor the settings in
  memory, which hold the new value; a save that succeeds leaves the file with exactly
  these settings, one that fails leaves the old file or an unreadable one, and the
  failure is logged and not raised.
\<close>

theorem save_attempted_failure_logged:
  assumes "writes_field cmd"
    and "handle cmd outcome chans g gs d = (gs', d', es, r)"
  shows "es = [save_effect outcome] \<and> r = Done
         \<and> gs' = fst (handle cmd Saved chans g gs d)
         \<and> map_of gs' g \<noteq> None
         \<and> d' = (case outcome of Saved \<Rightarrow> File gs' | OpenFails \<Rightarrow> d | DumpFails \<Rightarrow> Garbled)
         \<and> save_effect outcome = (case outcome of Saved \<Rightarrow> SaveFile | _ \<Rightarrow> LogSaveError)"
proof -
  from handle_writes [OF assms(1), of outcome chans g gs d] assms(2)
  have a: "gs' = fst (handle cmd Saved chans g gs d)"
    "d' = fst (save_guild_config outcome gs' d)" "es = [save_effect outcome]" "r = Done"
    by simp_all
  from handle_creates [OF assms(1), of outcome chans g gs d] assms(2)
  have b: "map_of gs' g \<noteq> None" by simp
  from a(2) have c: "d' = (case outcome of Saved \<Rightarrow> File gs' | OpenFails \<Rightarrow> d | DumpFails \<Rightarrow> Garbled)"
    by (cases outcome) (simp_all add: save_guild_config_def)
  from a b c show ?thesis by (simp add: save_effect_def)
qed

theorem save_attempted_failure_logged_witness:
  "[LogSaveError] = [save_effect DumpFails] \<and> Done = Done
   \<and> [(1, default_cfg\<lparr>post_hour := Some 9, post_minute := Some 30\<rparr>)]
       = fst (handle (Time 9 30) Saved (\<lambda>ch. True) 1 [] NoFile)
   \<and> Garbled = (case DumpFails of
        Saved \<Rightarrow> File [(1, default_cfg\<lparr>post_hour := Some 9, post_minute := Some 30\<rparr>)]
      | OpenFails \<Rightarrow> NoFile | DumpFails \<Rightarrow> Garbled)"
proof -
  have h1: "writes_field (Time 9 30)" by simp
  have h2: "handle (Time 9 30) DumpFails (\<lambda>ch. True) 1 [] NoFile
      = ([(1, default_cfg\<lparr>post_hour := Some 9, post_minute := Some 30\<rparr>)], Garbled,
         [LogSaveError], Done)"
    by (simp add: get_or_create_guild_settings_def update_cfg_def save_guild_config_def Let_def)
  from save_attempted_failure_logged [OF h1 h2] show ?thesis by simp
qed

section \<open>Lookups that overlap\<close>

text \<open>
  Run alone, the three segments of a call are the lookup: same result, same cache and
  same effects as \<open>get_today_horoscope_for_guild\<close>.
\<close>

lemma advance_check_hit:
  "call_pc k = AtCheck \<Longrightarrow> cached_today (call_today k) c (call_guild k) = Some d \<Longrightarrow>
   advance k c = (k\<lparr>call_pc := Returned (Some d)\<rparr>, c, [])"
  by (simp add: advance_def)

lemma advance_check_miss:
  "call_pc k = AtCheck \<Longrightarrow> cached_today (call_today k) c (call_guild k) = None \<Longrightarrow>
   advance k c = (k\<lparr>call_pc := AtFetch\<rparr>, c, [FetchSource])"
  by (simp add: advance_def)

lemma advance_fetch:
  "call_pc k = AtFetch \<Longrightarrow>
   advance k c = (if no_source (call_fetched k) then (k\<lparr>call_pc := Returned None\<rparr>, c, [])
                  else (k\<lparr>call_pc := AtTranslate\<rparr>, c, []))"
  by (simp add: advance_def)

lemma advance_translate:
  "call_pc k = AtTranslate \<Longrightarrow>
   translate_text (call_env k) (the (call_fetched k)) (call_key k) 3 = (tr, tes) \<Longrightarrow>
   advance k c =
     (case tr of
        None \<Rightarrow> (k\<lparr>call_pc := Returned None\<rparr>, c, tes)
      | Some t \<Rightarrow>
          if \<not> truthy t then (k\<lparr>call_pc := Returned None\<rparr>, c, tes)
          else (k\<lparr>call_pc := Returned (Some t)\<rparr>,
                c(call_guild k \<mapsto> \<lparr>date = call_today k, data = t\<rparr>),
                tes @ [CacheStore (call_guild k)]))"
  by (simp add: advance_def)

lemma advance_returned: "call_pc k = Returned r \<Longrightarrow> advance k c = (k, c, [])"
  by (simp add: advance_def)

lemma interleave_one:
  "advance k c = (k', c', es) \<Longrightarrow>
   interleave (0 # sched) [k] c =
     (case interleave sched [k'] c' of (cs'', c'', tes) \<Rightarrow> (cs'', c'', map (Pair 0) es @ tes))"
  by simp

lemma advance_alone:
  assumes "call_pc k = AtCheck"
    and "get_today_horoscope_for_guild (call_today k) (call_fetched k) (call_env k)
           (call_guild k) (call_key k) c = (r, c', es)"
  shows "interleave [0, 0, 0] [k] c = ([k\<lparr>call_pc := Returned r\<rparr>], c', map (Pair 0) es)"
proof (cases "cached_today (call_today k) c (call_guild k)")
  case (Some d)
  from get_today_hit [OF Some, of "call_fetched k" "call_env k" "call_key k"] assms(2)
  have e: "r = Some d" "c' = c" "es = []" by simp_all
  note s1 = advance_check_hit [OF assms(1) Some]
  have s2: "advance (k\<lparr>call_pc := Returned (Some d)\<rparr>) c = (k\<lparr>call_pc := Returned (Some d)\<rparr>, c, [])"
    by (rule advance_returned) simp
  show ?thesis
    unfolding interleave_one [OF s1] interleave_one [OF s2] using e by simp
next
  case None
  note s1 = advance_check_miss [OF assms(1) None]
  let ?k1 = "k\<lparr>call_pc := AtFetch\<rparr>"
  show ?thesis
  proof (cases "no_source (call_fetched k)")
    case True
    with None assms(2) have e: "r = None" "c' = c" "es = [FetchSource]"
      by (simp_all add: get_today_horoscope_for_guild_def)
    from True have s2: "advance ?k1 c = (k\<lparr>call_pc := Returned None\<rparr>, c, [])"
      by (simp add: advance_fetch)
    have s3: "advance (k\<lparr>call_pc := Returned None\<rparr>) c = (k\<lparr>call_pc := Returned None\<rparr>, c, [])"
      by (rule advance_returned) simp
    show ?thesis
      unfolding interleave_one [OF s1] interleave_one [OF s2] interleave_one [OF s3]
      using e by simp
  next
    case False
    let ?k2 = "k\<lparr>call_pc := AtTranslate\<rparr>"
    from False have s2: "advance ?k1 c = (?k2, c, [])"
      by (simp add: advance_fetch)
    obtain tr tes where t: "translate_text (call_env k) (the (call_fetched k)) (call_key k) 3 = (tr, tes)"
      by (cases "translate_text (call_env k) (the (call_fetched k)) (call_key k) 3")
    from t have t2: "translate_text (call_env ?k2) (the (call_fetched ?k2)) (call_key ?k2) 3 = (tr, tes)"
      by simp
    have pc2: "call_pc ?k2 = AtTranslate" by simp
    note s3 = advance_translate [OF pc2 t2, of c]
    show ?thesis
    proof (cases tr)
      case N: None
      with None False t assms(2) have e: "r = None" "c' = c" "es = FetchSource # tes"
        by (simp_all add: get_today_horoscope_for_guild_def)
      from s3 N have s3': "advance ?k2 c = (k\<lparr>call_pc := Returned None\<rparr>, c, tes)" by simp
      show ?thesis
        unfolding interleave_one [OF s1] interleave_one [OF s2] interleave_one [OF s3']
        using e by simp
    next
      case (Some v)
      show ?thesis
      proof (cases "truthy v")
        case True
        with Some None False t assms(2)
        have e: "r = Some v" "c' = c(call_guild k \<mapsto> \<lparr>date = call_today k, data = v\<rparr>)"
          "es = FetchSource # tes @ [CacheStore (call_guild k)]"
          by (simp_all add: get_today_horoscope_for_guild_def)
        from s3 Some True have s3': "advance ?k2 c = (k\<lparr>call_pc := Returned (Some v)\<rparr>,
            c(call_guild k \<mapsto> \<lparr>date = call_today k, data = v\<rparr>), tes @ [CacheStore (call_guild k)])"
          by simp
        show ?thesis
          unfolding interleave_one [OF s1] interleave_one [OF s2] interleave_one [OF s3']
          using e by simp
      next
        case F: False
        with Some None False t assms(2) have e: "r = None" "c' = c" "es = FetchSource # tes"
          by (simp_all add: get_today_horoscope_for_guild_def)
        from s3 Some F have s3': "advance ?k2 c = (k\<lparr>call_pc := Returned None\<rparr>, c, tes)" by simp
        show ?thesis
          unfolding interleave_one [OF s1] interleave_one [OF s2] interleave_one [OF s3']
          using e by simp
      qed
    qed
  qed
qed

lemma translate_text_posts: "length (posts (snd (translate_text env j key 3))) \<le> 3"
  by (simp add: translate_text_3 posts_def)

lemma posts_append [simp]: "posts (es @ es') = posts es @ posts es'"
  by (simp add: posts_def)

text \<open>One segment uses up what the call had left.\<close>

lemma advance_fetches:
  "advance k c = (k', c', es) \<Longrightarrow>
   count_list es FetchSource + fetches_left (call_pc k') \<le> fetches_left (call_pc k)"
proof (cases "call_pc k")
  case AtCheck
  assume "advance k c = (k', c', es)"
  with AtCheck show ?thesis
    by (auto simp: advance_def fetches_left_def split: option.splits)
next
  case AtFetch
  assume "advance k c = (k', c', es)"
  with AtFetch show ?thesis
    by (auto simp: advance_def fetches_left_def split: if_splits)
next
  case AtTranslate
  assume a: "advance k c = (k', c', es)"
  obtain tr tes where t: "translate_text (call_env k) (the (call_fetched k)) (call_key k) 3 = (tr, tes)"
    by (cases "translate_text (call_env k) (the (call_fetched k)) (call_key k) 3")
  have "FetchSource \<notin> set tes"
    using t by (auto simp: translate_text_3 split: if_splits)
  with a AtTranslate t show ?thesis
    by (auto simp: advance_def fetches_left_def split: option.splits if_splits)
next
  case (Returned r)
  assume "advance k c = (k', c', es)"
  with Returned show ?thesis
    by (auto simp: advance_def fetches_left_def)
qed

lemma advance_posts:
  "advance k c = (k', c', es) \<Longrightarrow>
   length (posts es) + posts_left (call_pc k') \<le> posts_left (call_pc k)"
proof (cases "call_pc k")
  case AtCheck
  assume "advance k c = (k', c', es)"
  with AtCheck show ?thesis
    by (auto simp: advance_def posts_left_def posts_def split: option.splits)
next
  case AtFetch
  assume "advance k c = (k', c', es)"
  with AtFetch show ?thesis
    by (auto simp: advance_def posts_left_def posts_def split: if_splits)
next
  case AtTranslate
  assume a: "advance k c = (k', c', es)"
  obtain tr tes where t: "translate_text (call_env k) (the (call_fetched k)) (call_key k) 3 = (tr, tes)"
    by (cases "translate_text (call_env k) (the (call_fetched k)) (call_key k) 3")
  from translate_text_posts [of "call_env k" "the (call_fetched k)" "call_key k"] t
  have "length (posts tes) \<le> 3" by simp
  moreover have "posts [CacheStore (call_guild k)] = []" by (simp add: posts_def)
  ultimately show ?thesis using a AtTranslate t
    by (auto simp: advance_def posts_left_def split: option.splits if_splits)
next
  case (Returned r)
  assume "advance k c = (k', c', es)"
  with Returned show ?thesis
    by (auto simp: advance_def posts_left_def posts_def)
qed

lemma effects_of_simps [simp]:
  "effects_of i [] = []"
  "effects_of i (map (Pair i) es @ tes) = es @ effects_of i tes"
  "j \<noteq> i \<Longrightarrow> effects_of i (map (Pair j) es @ tes) = effects_of i tes"
  by (induction es) (auto simp: effects_of_def)

text \<open>
  Whatever the schedule, what a call does in it stays within what it had left at the
  start: stated once for any way \<open>w\<close> of counting effects and any allowance \<open>b\<close> that one
  segment respects.
\<close>

lemma interleave_allowance:
  fixes w :: "effect list \<Rightarrow> nat" and b :: "pc \<Rightarrow> nat"
  assumes seg: "\<And>k c k' c' es. advance k c = (k', c', es) \<Longrightarrow>
                  w es + b (call_pc k') \<le> b (call_pc k)"
    and w0: "w [] = 0" and wa: "\<And>es es'. w (es @ es') = w es + w es'"
  shows "i < length cs \<Longrightarrow> w (effects_of i (snd (snd (interleave sched cs c)))) \<le> b (call_pc (cs ! i))"
proof (induction sched arbitrary: cs c)
  case Nil
  then show ?case by (simp add: w0)
next
  case (Cons j sched)
  show ?case
  proof (cases "j < length cs")
    case False
    with Cons show ?thesis by simp
  next
    case True
    obtain k' c' es where a: "advance (cs ! j) c = (k', c', es)"
      by (cases "advance (cs ! j) c")
    obtain cs'' c'' tes where r: "interleave sched (cs[j := k']) c' = (cs'', c'', tes)"
      by (cases "interleave sched (cs[j := k']) c'")
    from True a r have eq: "snd (snd (interleave (j # sched) cs c)) = map (Pair j) es @ tes"
      by simp
    from Cons.prems have len: "i < length (cs[j := k'])" by simp
    from Cons.IH [OF len, of c'] r
    have ih: "w (effects_of i tes) \<le> b (call_pc (cs[j := k'] ! i))" by simp
    show ?thesis
    proof (cases "j = i")
      case T: True
      with Cons.prems ih have "w (effects_of i tes) \<le> b (call_pc k')" by simp
      with seg [OF a] T eq show ?thesis by (simp add: wa)
    next
      case F: False
      with ih have "w (effects_of i tes) \<le> b (call_pc (cs ! i))" by simp
      with F eq show ?thesis by simp
    qed
  qed
qed

text \<open>
  Two lookups for guild 7 on the same day, started together on an empty cache: after each
  has run its first two segments both are waiting for their own translation, and in the
  end each has fetched the source, posted to the endpoint and stored.
\<close>

theorem overlapping_lookups_both_translate:
  "map call_pc (fst (interleave [0, 1, 0, 1]
       [\<lparr>call_guild = 7, call_key = ''key'', call_today = ''20240101'',
         call_fetched = Some ''[1]'',
         call_env = (\<lambda>i. Reply 200 (Some (JArr [JStr ''x''])) True), call_pc = AtCheck\<rparr>,
        \<lparr>call_guild = 7, call_key = ''key'', call_today = ''20240101'',
         call_fetched = Some ''[1]'',
         call_env = (\<lambda>i. Reply 200 (Some (JArr [JStr ''x''])) True), call_pc = AtCheck\<rparr>]
       Map.empty))
     = [AtTranslate, AtTranslate]
   \<and> snd (snd (interleave [0, 1, 0, 1, 0, 1]
       [\<lparr>call_guild = 7, call_key = ''key'', call_today = ''20240101'',
         call_fetched = Some ''[1]'',
         call_env = (\<lambda>i. Reply 200 (Some (JArr [JStr ''x''])) True), call_pc = AtCheck\<rparr>,
        \<lparr>call_guild = 7, call_key = ''key'', call_today = ''20240101'',
         call_fetched = Some ''[1]'',
         call_env = (\<lambda>i. Reply 200 (Some (JArr [JStr ''x''])) True), call_pc = AtCheck\<rparr>]
       Map.empty))
     = [(0, FetchSource), (1, FetchSource), (0, HttpPost 0), (0, CacheStore 7),
        (1, HttpPost 0), (1, CacheStore 7)]"
  by (simp add: advance_def cached_today_def no_source_def translate_text_3 py_optional_def)

text \<open>
  C9, as the code has it. The lock covers the check and the store, not the pipeline
  between them. In every schedule of calls that have not started, each call starts at
  most one source fetch and makes at most the 3 posts of one translation; and a call
  whose check finds a non-empty entry of its day returns it at once, with no effect. So
  calls that check after a store share its entry, and \<open>n\<close> calls that check before any
  of them has stored run up to \<open>n\<close> pipelines.
\<close>

theorem one_pipeline_per_call:
  "(i < length cs \<and> call_pc (cs ! i) = AtCheck \<longrightarrow>
      count_list (effects_of i (snd (snd (interleave sched cs c)))) FetchSource \<le> 1
      \<and> length (posts (effects_of i (snd (snd (interleave sched cs c))))) \<le> 3)
   \<and> (call_pc k = AtCheck \<and> cached_today (call_today k) c (call_guild k) = Some d \<longrightarrow>
        advance k c = (k\<lparr>call_pc := Returned (Some d)\<rparr>, c, []))"
proof (intro conjI impI)
  assume a: "i < length cs \<and> call_pc (cs ! i) = AtCheck"
  have "count_list (effects_of i (snd (snd (interleave sched cs c)))) FetchSource
          \<le> fetches_left (call_pc (cs ! i))"
  proof (rule interleave_allowance [where w = "\<lambda>es. count_list es FetchSource" and b = fetches_left])
    show "\<And>k c k' c' es. advance k c = (k', c', es) \<Longrightarrow>
            count_list es FetchSource + fetches_left (call_pc k') \<le> fetches_left (call_pc k)"
      by (rule advance_fetches)
    show "count_list [] FetchSource = 0" by simp
    show "\<And>es es'. count_list (es @ es') FetchSource
            = count_list es FetchSource + count_list es' FetchSource"
      by simp
    from a show "i < length cs" by simp
  qed
  with a show "count_list (effects_of i (snd (snd (interleave sched cs c)))) FetchSource \<le> 1"
    by (simp add: fetches_left_def)
  have "length (posts (effects_of i (snd (snd (interleave sched cs c)))))
          \<le> posts_left (call_pc (cs ! i))"
  proof (rule interleave_allowance [where w = "\<lambda>es. length (posts es)" and b = posts_left])
    show "\<And>k c k' c' es. advance k c = (k', c', es) \<Longrightarrow>
            length (posts es) + posts_left (call_pc k') \<le> posts_left (call_pc k)"
      by (rule advance_posts)
    show "length (posts []) = 0" by (simp add: posts_def)
    show "\<And>es es'. length (posts (es @ es')) = length (posts es) + length (posts es')"
      by simp
    from a show "i < length cs" by simp
  qed
  with a show "length (posts (effects_of i (snd (snd (interleave sched cs c))))) \<le> 3"
    by (simp add: posts_left_def)
next
  assume "call_pc k = AtCheck \<and> cached_today (call_today k) c (call_guild k) = Some d"
  then show "advance k c = (k\<lparr>call_pc := Returned (Some d)\<rparr>, c, [])"
    by (simp add: advance_def)
qed

theorem one_pipeline_per_call_witness:
  "count_list (effects_of 0 (snd (snd (interleave [0, 1, 0, 1, 0, 1]
       [\<lparr>call_guild = 7, call_key = ''key'', call_today = ''20240101'',
         call_fetched = Some ''[1]'',
         call_env = (\<lambda>i. Reply 200 (Some (JArr [JStr ''x''])) True), call_pc = AtCheck\<rparr>,
        \<lparr>call_guild = 7, call_key = ''key'', call_today = ''20240101'',
         call_fetched = Some ''[1]'',
         call_env = (\<lambda>i. Reply 200 (Some (JArr [JStr ''x''])) True), call_pc = AtCheck\<rparr>]
       Map.empty)))) FetchSource \<le> 1
   \<and> advance \<lparr>call_guild = 7, call_key = ''key'', call_today = ''20240101'',
         call_fetched = Some ''[1]'',
         call_env = (\<lambda>i. Reply 200 (Some (JArr [JStr ''x''])) True), call_pc = AtCheck\<rparr>
        [7 \<mapsto> \<lparr>date = ''20240101'', data = JArr [JStr ''y'']\<rparr>]
     = (\<lparr>call_guild = 7, call_key = ''key'', call_today = ''20240101'',
         call_fetched = Some ''[1]'',
         call_env = (\<lambda>i. Reply 200 (Some (JArr [JStr ''x''])) True),
         call_pc = Returned (Some (JArr [JStr ''y'']))\<rparr>,
        [7 \<mapsto> \<lparr>date = ''20240101'', data = JArr [JStr ''y'']\<rparr>], [])"
proof -
  let ?A = "\<lparr>call_guild = 7, call_key = ''key'', call_today = ''20240101'',
         call_fetched = Some ''[1]'',
         call_env = (\<lambda>i::nat. Reply 200 (Some (JArr [JStr ''x''])) True), call_pc = AtCheck\<rparr>"
  let ?c = "[7 \<mapsto> \<lparr>date = ''20240101'', data = JArr [JStr ''y'']\<rparr>]"
  have h1: "0 < length [?A, ?A] \<and> call_pc ([?A, ?A] ! 0) = AtCheck" by simp
  have h2: "call_pc ?A = AtCheck
      \<and> cached_today (call_today ?A) ?c (call_guild ?A) = Some (JArr [JStr ''y''])"
    by (simp add: cached_today_def)
  note t = one_pipeline_per_call [where i = 0 and cs = "[?A, ?A]" and sched = "[0, 1, 0, 1, 0, 1]"
      and c = Map.empty and k = ?A and d = "JArr [JStr ''y'']"]
  note u = one_pipeline_per_call [where i = 0 and cs = "[?A, ?A]" and sched = "[]"
      and c = ?c and k = ?A and d = "JArr [JStr ''y'']"]
  from t h1 have r1: "count_list (effects_of 0 (snd (snd (interleave [0, 1, 0, 1, 0, 1]
       [?A, ?A] Map.empty)))) FetchSource \<le> 1"
    by blast
  from u h2 have r2: "advance ?A ?c = (?A\<lparr>call_pc := Returned (Some (JArr [JStr ''y'']))\<rparr>, ?c, [])"
    by blast
  from r1 r2 show ?thesis by simp
qed

end
